theory Spec2Isabelle
  imports Main
begin

section \<open>Python values and the library functions the program calls\<close>

text \<open>
  A Python \<open>str\<close> is a sequence of Unicode code points, so a character is a natural number
  and a string is a list of them. \<open>u\<close> turns an ASCII literal into such a string.
\<close>

type_synonym uchar = nat
type_synonym ustr = "uchar list"

definition u :: "string \<Rightarrow> ustr" where
  "u s = map of_char s"

text \<open>
  The values of a decoded JSON document (\<open>json.loads\<close>): null, booleans, integers, strings,
  arrays and objects. An object is an association list read with \<open>map_of\<close>. Floating point
  numbers are left out.
\<close>

datatype pyval =
    PNone
  | PBool bool
  | PInt int
  | PStr ustr
  | PList "pyval list"
  | PDict "(ustr \<times> pyval) list"

type_synonym pydict = "(ustr \<times> pyval) list"

text \<open>Truthiness, as \<open>if x:\<close> and \<open>not x\<close> read a value.\<close>

fun truthy :: "pyval \<Rightarrow> bool" where
  "truthy PNone = False"
| "truthy (PBool b) = b"
| "truthy (PInt n) = (n \<noteq> 0)"
| "truthy (PStr s) = (s \<noteq> [])"
| "truthy (PList xs) = (xs \<noteq> [])"
| "truthy (PDict kvs) = (kvs \<noteq> [])"

datatype re_flag = IGNORECASE | MULTILINE | DOTALL | VERBOSE

text \<open>
  A compiled pattern (\<open>re.compile(regex, flags)\<close>) is determined by its source and its flags.
\<close>

record re_pattern =
  re_source :: ustr
  re_flags :: "re_flag set"

text \<open>
  The functions of the Python runtime that the program calls and that depend on the Unicode
  database, on the \<open>re\<close> engine or on \<open>repr\<close> are parameters of the model:
  \<^item> \<open>isdigit\<close>: \<open>ch.isdigit()\<close> on a one-character string;
  \<^item> \<open>int_of_char\<close>: \<open>int(ch)\<close> on a one-character string, \<open>None\<close> when it raises;
  \<^item> \<open>lower\<close>, \<open>upper\<close>: \<open>str.lower\<close>, \<open>str.upper\<close>;
  \<^item> \<open>repr\<close>: \<open>repr(x)\<close>, which is what \<open>str(x)\<close> returns for every value but a string;
  \<^item> \<open>re_valid\<close>: whether \<open>re.compile\<close> accepts a source with the given flags;
  \<^item> \<open>finditer\<close>: \<open>m.group(0)\<close> for each match of \<open>pattern.finditer(text)\<close>, in order.
\<close>

record pylib =
  isdigit :: "uchar \<Rightarrow> bool"
  int_of_char :: "uchar \<Rightarrow> int option"
  lower :: "ustr \<Rightarrow> ustr"
  upper :: "ustr \<Rightarrow> ustr"
  repr :: "pyval \<Rightarrow> ustr"
  re_valid :: "ustr \<Rightarrow> re_flag set \<Rightarrow> bool"
  finditer :: "re_pattern \<Rightarrow> ustr \<Rightarrow> ustr list"

text \<open>\<open>str(x)\<close>: a string is returned as it is, any other value through \<open>repr\<close>.\<close>

definition py_str :: "pylib \<Rightarrow> pyval \<Rightarrow> ustr" where
  "py_str L v = (case v of PStr s \<Rightarrow> s | _ \<Rightarrow> repr L v)"

text \<open>\<open>str(n)\<close> for an integer: decimal digits, with a minus sign when negative.\<close>

fun str_nat :: "nat \<Rightarrow> ustr" where
  "str_nat n = (if n < 10 then [48 + n] else str_nat (n div 10) @ [48 + n mod 10])"

declare str_nat.simps [simp del]

definition str_int :: "int \<Rightarrow> ustr" where
  "str_int v = (if v < 0 then 45 # str_nat (nat (- v)) else str_nat (nat v))"

text \<open>The slice \<open>s[i:j]\<close> for \<open>0 \<le> i \<le> j\<close>; it stops at the end of the string.\<close>

definition slice :: "nat \<Rightarrow> nat \<Rightarrow> 'a list \<Rightarrow> 'a list" where
  "slice i j xs = take (j - i) (drop i xs)"

text \<open>\<open>s.split(sep)\<close> for a one-character separator.\<close>

fun split_on :: "uchar \<Rightarrow> ustr \<Rightarrow> ustr list" where
  "split_on d [] = [[]]"
| "split_on d (c # cs) =
     (if c = d then [] # split_on d cs
      else (case split_on d cs of p # ps \<Rightarrow> (c # p) # ps | [] \<Rightarrow> [[c]]))"

section \<open>Normalisation\<close>

definition UNICODE_DASHES :: ustr where
  "UNICODE_DASHES = [0x2010, 0x2011, 0x2012, 0x2013, 0x2014]"

text \<open>
  \<open>NBSP_SET\<close> is a Python set; the list gives one iteration order. Each element is replaced
  by the same character, so the order does not matter (\<open>nbsp_replace_map\<close> below).
\<close>

definition NBSP_SET :: "uchar list" where
  "NBSP_SET = [0xA0, 0x2007, 0x202F, 0x2009, 0x200B]"

text \<open>\<open>s.replace(a, b)\<close> for one-character strings \<open>a\<close> and \<open>b\<close>.\<close>

definition replace_char :: "uchar \<Rightarrow> uchar \<Rightarrow> ustr \<Rightarrow> ustr" where
  "replace_char a b s = map (\<lambda>c. if c = a then b else c) s"

text \<open>\<open>dash_re.sub("-", s)\<close>: the pattern is the character class of \<open>UNICODE_DASHES\<close>.\<close>

definition dash_sub :: "ustr \<Rightarrow> ustr" where
  "dash_sub s = map (\<lambda>c. if c \<in> set UNICODE_DASHES then 45 else c) s"

text \<open>The class \<open>[ \t\r\f\v]\<close>: space, tab, carriage return, form feed, vertical tab.\<close>

definition is_hws :: "uchar \<Rightarrow> bool" where
  "is_hws c = (c = 32 \<or> c = 9 \<or> c = 13 \<or> c = 12 \<or> c = 11)"

text \<open>
  \<open>re.sub(r"[ \t\r\f\v]+", " ", s)\<close>: scanning from the left, every maximal run of characters
  of the class is replaced by one space.
\<close>

function collapse_ws :: "ustr \<Rightarrow> ustr" where
  "collapse_ws [] = []"
| "collapse_ws (c # cs) =
     (if is_hws c then 32 # collapse_ws (dropWhile is_hws cs) else c # collapse_ws cs)"
  by pat_completeness auto
termination
  by (relation "measure length") (auto simp: length_dropWhile_le less_Suc_eq_le)

definition normalize_separators :: "ustr \<Rightarrow> ustr" where
  "normalize_separators s =
     (if s = [] then s
      else collapse_ws (dash_sub (foldl (\<lambda>t ch. replace_char ch 32 t) s NBSP_SET)))"

text \<open>
  \<open>unicode_digits_to_ascii\<close>: the loop appends \<open>str(v)\<close> for every character that passes
  \<open>isdigit\<close>, whose \<open>int\<close> does not raise and lies in \<open>0..9\<close>; the result is the join.
\<close>

fun unicode_digits_to_ascii :: "pylib \<Rightarrow> ustr \<Rightarrow> ustr" where
  "unicode_digits_to_ascii L [] = []"
| "unicode_digits_to_ascii L (ch # s) =
     (if isdigit L ch then
        (case int_of_char L ch of
           None \<Rightarrow> unicode_digits_to_ascii L s
         | Some v \<Rightarrow>
             if 0 \<le> v \<and> v \<le> 9 then str_int v @ unicode_digits_to_ascii L s
             else unicode_digits_to_ascii L s)
      else unicode_digits_to_ascii L s)"

section \<open>Detectors\<close>

record Detector =
  name :: ustr
  pattern :: re_pattern
  normalizer :: "(ustr \<Rightarrow> ustr option) option"
  desc :: ustr

text \<open>
  \<open>Detector.find\<close>: each raw match goes through the normalizer when there is one, and only
  a non-empty result is yielded.
\<close>

definition find_val :: "Detector \<Rightarrow> ustr \<Rightarrow> ustr option" where
  "find_val d raw =
     (let val = (case normalizer d of Some f \<Rightarrow> f raw | None \<Rightarrow> Some raw)
      in case val of None \<Rightarrow> None | Some v \<Rightarrow> if v \<noteq> [] then Some v else None)"

definition Detector_find :: "pylib \<Rightarrow> Detector \<Rightarrow> ustr \<Rightarrow> ustr list" where
  "Detector_find L d text = List.map_filter (find_val d) (finditer L (pattern d) text)"

text \<open>The normalizer \<open>_norm\<close> of \<open>make_nas_detector\<close>.\<close>

definition nas_norm :: "pylib \<Rightarrow> ustr \<Rightarrow> ustr option" where
  "nas_norm L s =
     (let digits = unicode_digits_to_ascii L s
      in if length digits \<noteq> 9 then None
         else Some (slice 0 3 digits @ u ''-'' @ slice 3 6 digits @ u ''-'' @ slice 6 9 digits))"

text \<open>The source of the built-in pattern, \<open>(\d[\d\-\s_./]{7,24}\d)|(\d{9})\<close>; 92 is the backslash.\<close>

definition NAS_REGEX :: ustr where
  "NAS_REGEX =
     u ''('' @ [92] @ u ''d['' @ [92] @ u ''d'' @ [92] @ u ''-'' @ [92] @ u ''s_./]{7,24}''
       @ [92] @ u ''d)|('' @ [92] @ u ''d{9})''"

definition make_nas_detector :: "pylib \<Rightarrow> Detector" where
  "make_nas_detector L =
     \<lparr> name = u ''NAS'',
       pattern = \<lparr> re_source = NAS_REGEX, re_flags = {} \<rparr>,
       normalizer = Some (nas_norm L),
       desc = u ''Canadian SIN ###-###-### (separators and unicode digits accepted).'' \<rparr>"

text \<open>Everything the program can raise.\<close>

datatype error =
    ConnectionError
  | HTTPError nat
  | JSONDecodeError
  | OSError
  | YAMLError
  | KeyError ustr
  | ReError

text \<open>
  \<open>load_detectors_from_yaml\<close>. The parsed file is a list of items in the format of the
  docstring; a key that is absent is \<open>None\<close> (reading \<open>item["name"]\<close> or \<open>item["regex"]\<close> then
  raises \<open>KeyError\<close>). The environment says whether \<open>import yaml\<close> succeeds, what \<open>open\<close>
  reads (\<open>None\<close>: it raises) and what \<open>yaml.safe_load\<close> returns (\<open>None\<close>: it raises
  \<open>yaml.YAMLError\<close>).
\<close>

record yaml_item =
  item_name :: "ustr option"
  item_regex :: "ustr option"
  item_flags :: "pyval option"
  item_normalize :: "pyval option"
  item_desc :: "ustr option"

record yaml_env =
  yaml_installed :: bool
  read_file :: "ustr \<Rightarrow> ustr option"
  safe_load :: "ustr \<Rightarrow> yaml_item list option"

text \<open>What the program prints on the standard error stream.\<close>

type_synonym bulk_item = "(ustr \<times> pydict) list"

datatype diag =
    PYYAML_MISSING
  | BULK_HTTP_ERROR nat
  | BULK_ITEM_ERRORS "bulk_item list"

text \<open>\<open>flags_map.get(s, 0)\<close>; a set of flags stands for their bitwise or, the empty set for 0.\<close>

definition flags_map_get :: "ustr \<Rightarrow> re_flag set" where
  "flags_map_get s =
     (if s = u ''IGNORECASE'' then {IGNORECASE}
      else if s = u ''MULTILINE'' then {MULTILINE}
      else if s = u ''DOTALL'' then {DOTALL}
      else if s = u ''VERBOSE'' then {VERBOSE}
      else {})"

definition item_re_flags :: "pylib \<Rightarrow> yaml_item \<Rightarrow> re_flag set" where
  "item_re_flags L item =
     (case item_flags item of
        None \<Rightarrow> {}
      | Some (PStr fl) \<Rightarrow> flags_map_get (upper L fl)
      | Some (PList fl) \<Rightarrow> foldl (\<lambda>flags f. flags \<union> flags_map_get (upper L (py_str L f))) {} fl
      | Some _ \<Rightarrow> {})"

text \<open>The normalizer \<open>_norm_local\<close>.\<close>

definition norm_local :: "pylib \<Rightarrow> ustr \<Rightarrow> ustr option" where
  "norm_local L s =
     (let digits = unicode_digits_to_ascii L s
      in if length digits = 9
         then Some (slice 0 3 digits @ u ''-'' @ slice 3 6 digits @ u ''-'' @ slice 6 9 digits)
         else None)"

text \<open>The body of the loop over the items: one detector, or the exception raised.\<close>

definition load_item :: "pylib \<Rightarrow> yaml_item \<Rightarrow> error + Detector" where
  "load_item L item =
     (case item_name item of
        None \<Rightarrow> Inl (KeyError (u ''name''))
      | Some nm \<Rightarrow>
          (case item_regex item of
             None \<Rightarrow> Inl (KeyError (u ''regex''))
           | Some regex \<Rightarrow>
               (let flags = item_re_flags L item
                in if \<not> re_valid L regex flags then Inl ReError
                   else Inr \<lparr> name = nm,
                              pattern = \<lparr> re_source = regex, re_flags = flags \<rparr>,
                              normalizer =
                                (if item_normalize item = Some (PStr (u ''nas''))
                                 then Some (norm_local L) else None),
                              desc = (case item_desc item of Some d \<Rightarrow> d | None \<Rightarrow> []) \<rparr>)))"

fun load_items :: "pylib \<Rightarrow> yaml_item list \<Rightarrow> error + Detector list" where
  "load_items L [] = Inr []"
| "load_items L (item # rest) =
     (case load_item L item of
        Inl e \<Rightarrow> Inl e
      | Inr d \<Rightarrow> (case load_items L rest of Inl e \<Rightarrow> Inl e | Inr ds \<Rightarrow> Inr (d # ds)))"

definition load_detectors_from_yaml ::
  "pylib \<Rightarrow> yaml_env \<Rightarrow> ustr \<Rightarrow> (error + Detector list) \<times> diag list" where
  "load_detectors_from_yaml L env path =
     (if \<not> yaml_installed env then (Inr [], [PYYAML_MISSING])
      else (case read_file env path of
              None \<Rightarrow> (Inl OSError, [])
            | Some content \<Rightarrow>
                (case safe_load env content of
                   None \<Rightarrow> (Inl YAMLError, [])
                 | Some spec \<Rightarrow> (load_items L spec, []))))"

section \<open>The Elasticsearch client\<close>

text \<open>
  A hit of the store carries its id and its source object; either key may be absent.
\<close>

record hit =
  hit_id :: "ustr option"
  hit_source :: "pydict option"

text \<open>
  The decoded body of a search or scroll response: \<open>data.get("_scroll_id")\<close> and
  \<open>data.get("hits", {}).get("hits", [])\<close>.
\<close>

record scroll_data =
  data_scroll_id :: "ustr option"
  data_hits :: "hit list"

text \<open>
  The decoded body of a bulk response: the truth value of \<open>data.get("errors")\<close> and
  \<open>data.get("items", [])\<close>. An item maps its action to a result object.
\<close>

record bulk_data =
  data_errors :: bool
  data_items :: "bulk_item list"

text \<open>
  What \<open>session.post\<close> gives: it raises (no connection, timeout), or it returns a response
  with a status code and a body, \<open>None\<close> when \<open>r.json()\<close> raises on it.
\<close>

datatype 'a http_result = ConnError | Response nat "'a option"

datatype search_request =
    InitialSearch ustr ustr pydict
  | ContinueScroll ustr ustr

text \<open>
  A line of the bulk body: the header of an update action (index, id, retry count) or the
  body with the script, whose source is a constant text, and \<open>params.upd\<close>.
\<close>

datatype bulk_line =
    UpdateHeader ustr ustr nat
  | ScriptBody "(ustr \<times> ustr list) list"

text \<open>
  The store answers a request from its state and moves to a new state.
\<close>

record 'st store =
  post_search :: "'st \<Rightarrow> search_request \<Rightarrow> scroll_data http_result \<times> 'st"
  post_bulk :: "'st \<Rightarrow> bulk_line list \<Rightarrow> bulk_data http_result \<times> 'st"

text \<open>\<open>r.raise_for_status()\<close> raises for the client and server error codes.\<close>

definition raise_for_status :: "nat \<Rightarrow> bool" where
  "raise_for_status code = (400 \<le> code \<and> code < 600)"

text \<open>\<open>r.raise_for_status(); data = r.json()\<close> of \<open>search_scroll\<close>.\<close>

definition read_page :: "scroll_data http_result \<Rightarrow> error + scroll_data" where
  "read_page r =
     (case r of
        ConnError \<Rightarrow> Inl ConnectionError
      | Response code body \<Rightarrow>
          if raise_for_status code then Inl (HTTPError code)
          else (case body of None \<Rightarrow> Inl JSONDecodeError | Some data \<Rightarrow> Inr data))"

text \<open>
  The \<open>while True\<close> loop of \<open>search_scroll\<close>. \<open>hs\<close> and \<open>sid\<close> are the hits and the cursor of
  the last response, \<open>out\<close> the hits yielded so far. The result is the hits yielded, the
  exception that ended the generator if any, and the state of the store; it is \<open>None\<close> when
  the loop never ends.
\<close>

partial_function (option) scroll_loop ::
  "'st store \<Rightarrow> ustr \<Rightarrow> hit list \<Rightarrow> ustr option \<Rightarrow> hit list \<Rightarrow> 'st
     \<Rightarrow> ((hit list \<times> error option) \<times> 'st) option" where
  "scroll_loop es scroll hs sid out st =
     (case sid of
        None \<Rightarrow> Some ((out, None), st)
      | Some tok \<Rightarrow>
          if hs = [] \<or> tok = [] then Some ((out, None), st)
          else (case post_search es st (ContinueScroll scroll tok) of
                  (r, st1) \<Rightarrow>
                    (case read_page r of
                       Inl e \<Rightarrow> Some ((out, Some e), st1)
                     | Inr data \<Rightarrow>
                         scroll_loop es scroll (data_hits data) (data_scroll_id data)
                           (out @ data_hits data) st1)))"

definition search_scroll ::
  "'st store \<Rightarrow> ustr \<Rightarrow> pydict \<Rightarrow> int \<Rightarrow> ustr \<Rightarrow> 'st
     \<Rightarrow> ((hit list \<times> error option) \<times> 'st) option" where
  "search_scroll es idx query page_size scroll st =
     (case post_search es st (InitialSearch idx scroll (query @ [(u ''size'', PInt page_size)])) of
        (r, st1) \<Rightarrow>
          (case read_page r of
             Inl e \<Rightarrow> Some (([], Some e), st1)
           | Inr data \<Rightarrow>
               scroll_loop es scroll (data_hits data) (data_scroll_id data) (data_hits data) st1))"

text \<open>\<open>any(v.get("error") for v in it.values())\<close>.\<close>

definition item_has_error :: "bulk_item \<Rightarrow> bool" where
  "item_has_error it =
     list_ex (\<lambda>(action, v). case map_of v (u ''error'') of None \<Rightarrow> False | Some e \<Rightarrow> truthy e) it"

text \<open>
  \<open>ESClient.bulk\<close> after the status check: decode the body and print the first item errors.
\<close>

definition bulk_read :: "bulk_data option \<Rightarrow> (error + bulk_data) \<times> diag list" where
  "bulk_read body =
     (case body of
        None \<Rightarrow> (Inl JSONDecodeError, [])
      | Some data \<Rightarrow>
          (Inr data,
           if data_errors data
           then [BULK_ITEM_ERRORS (take 5 (filter item_has_error (data_items data)))]
           else []))"

text \<open>
  \<open>ESClient.bulk\<close>: one POST; the result or the exception, what is printed, and the state of
  the store.
\<close>

definition ESClient_bulk ::
  "'st store \<Rightarrow> bulk_line list \<Rightarrow> 'st \<Rightarrow> (error + bulk_data) \<times> diag list \<times> 'st" where
  "ESClient_bulk es actions st =
     (case post_bulk es st actions of
        (ConnError, st1) \<Rightarrow> (Inl ConnectionError, [], st1)
      | (Response code body, st1) \<Rightarrow>
          if 400 \<le> code then
            (if raise_for_status code then (Inl (HTTPError code), [BULK_HTTP_ERROR code], st1)
             else (case bulk_read body of
                     (res, printed) \<Rightarrow> (res, BULK_HTTP_ERROR code # printed, st1)))
          else (case bulk_read body of (res, printed) \<Rightarrow> (res, printed, st1)))"

section \<open>Extraction and update\<close>

text \<open>
  The walk along the parts of a dotted path; \<open>None\<close> when the current value is not an object
  or lacks the part.
\<close>

fun lookup_path :: "pyval \<Rightarrow> ustr list \<Rightarrow> pyval option" where
  "lookup_path cur [] = Some cur"
| "lookup_path cur (part # parts) =
     (case cur of
        PDict kvs \<Rightarrow>
          (case map_of kvs part of None \<Rightarrow> None | Some v \<Rightarrow> lookup_path v parts)
      | _ \<Rightarrow> None)"

text \<open>The second half of \<open>get_text_from_source\<close>: the alternate field.\<close>

definition alt_text :: "pylib \<Rightarrow> pydict \<Rightarrow> ustr option \<Rightarrow> ustr" where
  "alt_text L src alt_field =
     (case alt_field of
        None \<Rightarrow> []
      | Some alt \<Rightarrow>
          if alt = [] then []
          else (case lookup_path (PDict src) (split_on 46 alt) of
                  None \<Rightarrow> []
                | Some cur \<Rightarrow> if truthy cur then py_str L cur else []))"

definition get_text_from_source :: "pylib \<Rightarrow> pydict \<Rightarrow> ustr \<Rightarrow> ustr option \<Rightarrow> ustr" where
  "get_text_from_source L src content_field alt_field =
     (case map_of src content_field of
        None \<Rightarrow> alt_text L src alt_field
      | Some v \<Rightarrow> if v \<noteq> PNone then py_str L v else alt_text L src alt_field)"

definition get_path_virtual :: "pylib \<Rightarrow> pydict \<Rightarrow> ustr \<Rightarrow> ustr" where
  "get_path_virtual L src path_field =
     (case lookup_path (PDict src) (split_on 46 path_field) of
        None \<Rightarrow> []
      | Some cur \<Rightarrow> py_str L cur)"

definition extract_from_text :: "pylib \<Rightarrow> ustr \<Rightarrow> Detector list \<Rightarrow> (ustr \<times> ustr) list" where
  "extract_from_text L text detectors =
     (if text = [] then []
      else (let text1 = normalize_separators text
            in concat (map (\<lambda>det. map (\<lambda>val. (name det, val)) (Detector_find L det text1))
                         detectors)))"

definition target_field :: "pylib \<Rightarrow> ustr \<Rightarrow> (ustr \<rightharpoonup> ustr) \<Rightarrow> ustr \<Rightarrow> ustr" where
  "target_field L detector_name fmap prefix =
     (case fmap detector_name of
        Some f \<Rightarrow> f
      | None \<Rightarrow>
          (let field = replace_char 32 95 (lower L detector_name)
           in if field = u ''nas'' then u ''nas_norm''
              else if prefix \<noteq> [] then prefix @ field else field))"

text \<open>The command line options the loop of \<open>main\<close> reads.\<close>

record args =
  index :: ustr
  content_field :: ustr
  alt_content_field :: "ustr option"
  path_field :: ustr
  dedupe :: bool
  detectors_yaml :: "ustr option"
  field_prefix :: ustr
  apply_updates :: bool
  bulk_size :: int

text \<open>
  The state of the run: the store, the rows written to the CSV file after its header, the
  keys seen, the bulk buffer, the three counters, what was printed on the standard error
  stream, and the bodies of the bulk requests sent so far.
\<close>

type_synonym row = "ustr \<times> ustr \<times> ustr \<times> ustr"

record 'st run_state =
  store_st :: 'st
  rows :: "row list"
  seen_csv :: "(ustr \<times> ustr \<times> ustr) set"
  bulk_lines :: "bulk_line list"
  docs_count :: nat
  pairs_count :: nat
  updates_count :: nat
  stderr :: "diag list"
  posted :: "bulk_line list list"

text \<open>Lines 373-375 of \<open>main\<close>: the built-in detector, then the ones of the YAML file.\<close>

definition main_detectors ::
  "pylib \<Rightarrow> yaml_env \<Rightarrow> args \<Rightarrow> (error + Detector list) \<times> diag list" where
  "main_detectors L env a =
     (case detectors_yaml a of
        None \<Rightarrow> (Inr [make_nas_detector L], [])
      | Some path \<Rightarrow>
          if path = [] then (Inr [make_nas_detector L], [])
          else (case load_detectors_from_yaml L env path of
                  (Inl e, printed) \<Rightarrow> (Inl e, printed)
                | (Inr ds, printed) \<Rightarrow> (Inr ([make_nas_detector L] @ ds), printed)))"

text \<open>
  \<open>flush_bulk\<close>: nothing when the buffer is empty; else one call of \<open>es.bulk\<close>, and the buffer
  is cleared when the call returns. The first component is the exception raised, if any.
\<close>

definition flush_bulk :: "'st store \<Rightarrow> 'st run_state \<Rightarrow> error option \<times> 'st run_state" where
  "flush_bulk es st =
     (if bulk_lines st = [] then (None, st)
      else (case ESClient_bulk es (bulk_lines st) (store_st st) of
              (res, printed, s1) \<Rightarrow>
                (let st1 = st \<lparr> store_st := s1, stderr := stderr st @ printed,
                                posted := posted st @ [bulk_lines st] \<rparr>
                 in case res of
                      Inl e \<Rightarrow> (Some e, st1)
                    | Inr data \<Rightarrow> (None, st1 \<lparr> bulk_lines := [] \<rparr>))))"

text \<open>The loop that writes the CSV rows of one document.\<close>

fun write_rows ::
  "bool \<Rightarrow> ustr \<Rightarrow> ustr \<Rightarrow> (ustr \<times> ustr) list \<Rightarrow> 'st run_state \<Rightarrow> 'st run_state" where
  "write_rows dd path doc_id [] st = st"
| "write_rows dd path doc_id ((det_name, val) # pairs) st =
     (if dd \<and> (det_name, val, path) \<in> seen_csv st then write_rows dd path doc_id pairs st
      else write_rows dd path doc_id pairs
             (st \<lparr> rows := rows st @ [(det_name, val, path, doc_id)],
                   seen_csv := (if dd then insert (det_name, val, path) (seen_csv st)
                                else seen_csv st),
                   pairs_count := pairs_count st + 1 \<rparr>))"

text \<open>
  The loop that fills \<open>field_to_values\<close>, a dictionary in insertion order: \<open>setdefault\<close> adds
  the field with an empty list when it is new, and the value is appended unless the list of
  the field has it.
\<close>

definition setdefault_field :: "(ustr \<times> ustr list) list \<Rightarrow> ustr \<Rightarrow> (ustr \<times> ustr list) list" where
  "setdefault_field ftv field =
     (case map_of ftv field of None \<Rightarrow> ftv @ [(field, [])] | Some vs \<Rightarrow> ftv)"

definition field_values :: "(ustr \<times> ustr list) list \<Rightarrow> ustr \<Rightarrow> ustr list" where
  "field_values ftv field = (case map_of ftv field of None \<Rightarrow> [] | Some vs \<Rightarrow> vs)"

definition append_value ::
  "(ustr \<times> ustr list) list \<Rightarrow> ustr \<Rightarrow> ustr \<Rightarrow> (ustr \<times> ustr list) list" where
  "append_value ftv field val = map (\<lambda>(k, vs). if k = field then (k, vs @ [val]) else (k, vs)) ftv"

fun group_fields ::
  "(ustr \<Rightarrow> ustr) \<Rightarrow> (ustr \<times> ustr) list \<Rightarrow> (ustr \<times> ustr list) list
     \<Rightarrow> (ustr \<times> ustr list) list" where
  "group_fields tf [] ftv = ftv"
| "group_fields tf ((det_name, val) # pairs) ftv =
     (let field = tf det_name;
          ftv1 = setdefault_field ftv field
      in group_fields tf pairs
           (if val \<in> set (field_values ftv1 field) then ftv1 else append_value ftv1 field val))"

text \<open>
  The body of the loop of \<open>main\<close> for one hit. The first component is the exception that
  ends the run, if any.
\<close>

definition process_hit ::
  "pylib \<Rightarrow> 'st store \<Rightarrow> args \<Rightarrow> Detector list \<Rightarrow> (ustr \<rightharpoonup> ustr) \<Rightarrow> hit \<Rightarrow> 'st run_state
     \<Rightarrow> error option \<times> 'st run_state" where
  "process_hit L es a detectors fmap h st0 =
     (let st = st0 \<lparr> docs_count := docs_count st0 + 1 \<rparr>;
          doc_id = (case hit_id h of None \<Rightarrow> [] | Some i \<Rightarrow> i);
          src = (case hit_source h of None \<Rightarrow> [] | Some s \<Rightarrow> s);
          text = get_text_from_source L src (content_field a) (alt_content_field a)
      in if text = [] then (None, st)
         else (let path = get_path_virtual L src (path_field a);
                   pairs = extract_from_text L text detectors;
                   st1 = write_rows (dedupe a) path doc_id pairs st
               in if apply_updates a \<and> pairs \<noteq> [] then
                    (let field_to_values =
                           group_fields (\<lambda>d. target_field L d fmap (field_prefix a)) pairs []
                     in if field_to_values \<noteq> [] then
                          (if doc_id = [] then (None, st1)
                           else (let st2 = st1 \<lparr> bulk_lines := bulk_lines st1 @
                                                   [UpdateHeader (index a) doc_id 3,
                                                    ScriptBody field_to_values],
                                                 updates_count := updates_count st1 + 1 \<rparr>
                                 in if bulk_size a \<le> int (length (bulk_lines st2) div 2)
                                    then flush_bulk es st2 else (None, st2)))
                        else (None, st1))
                  else (None, st1)))"

text \<open>The loop of \<open>main\<close> over the hits the pagination yields, in their order.\<close>

fun run_hits ::
  "pylib \<Rightarrow> 'st store \<Rightarrow> args \<Rightarrow> Detector list \<Rightarrow> (ustr \<rightharpoonup> ustr) \<Rightarrow> hit list \<Rightarrow> 'st run_state
     \<Rightarrow> error option \<times> 'st run_state" where
  "run_hits L es a detectors fmap [] st = (None, st)"
| "run_hits L es a detectors fmap (h # hs) st =
     (case process_hit L es a detectors fmap h st of
        (Some e, st1) \<Rightarrow> (Some e, st1)
      | (None, st1) \<Rightarrow> run_hits L es a detectors fmap hs st1)"

text \<open>
  The loop and the final flush. \<open>ended\<close> is the exception with which the pagination ended
  after its last hit, if any.
\<close>

definition main_loop ::
  "pylib \<Rightarrow> 'st store \<Rightarrow> args \<Rightarrow> Detector list \<Rightarrow> (ustr \<rightharpoonup> ustr) \<Rightarrow> hit list \<Rightarrow> error option
     \<Rightarrow> 'st run_state \<Rightarrow> error option \<times> 'st run_state" where
  "main_loop L es a detectors fmap hs ended st =
     (case run_hits L es a detectors fmap hs st of
        (Some e, st1) \<Rightarrow> (Some e, st1)
      | (None, st1) \<Rightarrow>
          (case ended of
             Some e \<Rightarrow> (Some e, st1)
           | None \<Rightarrow> if apply_updates a then flush_bulk es st1 else (None, st1)))"

definition init_state :: "'st \<Rightarrow> 'st run_state" where
  "init_state s =
     \<lparr> store_st = s, rows = [], seen_csv = {}, bulk_lines = [], docs_count = 0,
       pairs_count = 0, updates_count = 0, stderr = [], posted = [] \<rparr>"

text \<open>
  \<open>main\<close>: the detectors are set up before the first request; an exception there leaves
  \<open>main\<close> at once. \<open>hs\<close> and \<open>ended\<close> are what the pagination yields.
\<close>

definition main ::
  "pylib \<Rightarrow> yaml_env \<Rightarrow> 'st store \<Rightarrow> args \<Rightarrow> (ustr \<rightharpoonup> ustr) \<Rightarrow> hit list \<Rightarrow> error option \<Rightarrow> 'st
     \<Rightarrow> error option \<times> 'st run_state" where
  "main L env es a fmap hs ended s =
     (case main_detectors L env a of
        (Inl e, printed) \<Rightarrow> (Some e, (init_state s) \<lparr> stderr := printed \<rparr>)
      | (Inr detectors, printed) \<Rightarrow>
          main_loop L es a detectors fmap hs ended ((init_state s) \<lparr> stderr := printed \<rparr>))"

section \<open>Vocabulary of the statements\<close>

text \<open>
  The characters the fold keeps: those the runtime classifies as digits and converts to a
  decimal value.
\<close>

definition decimal_digit :: "pylib \<Rightarrow> uchar \<Rightarrow> bool" where
  "decimal_digit L ch =
     (isdigit L ch \<and> (case int_of_char L ch of None \<Rightarrow> False | Some v \<Rightarrow> 0 \<le> v \<and> v \<le> 9))"

definition digit_value :: "pylib \<Rightarrow> uchar \<Rightarrow> nat" where
  "digit_value L ch = (case int_of_char L ch of None \<Rightarrow> 0 | Some v \<Rightarrow> nat v)"

definition ascii_digit :: "uchar \<Rightarrow> bool" where
  "ascii_digit c = (48 \<le> c \<and> c \<le> 57)"

text \<open>
  A runtime that agrees with Python on the ASCII characters: the digits 0-9 are the only
  ASCII characters that pass \<open>isdigit\<close>, and \<open>int\<close> gives their values.
\<close>

definition ascii_lib :: "pylib \<Rightarrow> bool" where
  "ascii_lib L =
     list_all (\<lambda>c. isdigit L c = ascii_digit c
                  \<and> (if ascii_digit c then int_of_char L c = Some (int c - 48) else True))
       [0..<128]"

text \<open>The characters \<open>normalize_separators\<close> rewrites.\<close>

definition nbsp_char :: "uchar \<Rightarrow> bool" where
  "nbsp_char c = (c \<in> set NBSP_SET)"

definition dash_char :: "uchar \<Rightarrow> bool" where
  "dash_char c = (c \<in> set UNICODE_DASHES)"

definition separator_char :: "uchar \<Rightarrow> bool" where
  "separator_char c = (nbsp_char c \<or> dash_char c \<or> is_hws c)"

text \<open>What the loop of \<open>main\<close> computes for one hit.\<close>

definition hit_doc_id :: "hit \<Rightarrow> ustr" where
  "hit_doc_id h = (case hit_id h of None \<Rightarrow> [] | Some i \<Rightarrow> i)"

definition hit_src :: "hit \<Rightarrow> pydict" where
  "hit_src h = (case hit_source h of None \<Rightarrow> [] | Some s \<Rightarrow> s)"

definition hit_text :: "pylib \<Rightarrow> args \<Rightarrow> hit \<Rightarrow> ustr" where
  "hit_text L a h = get_text_from_source L (hit_src h) (content_field a) (alt_content_field a)"

definition hit_path :: "pylib \<Rightarrow> args \<Rightarrow> hit \<Rightarrow> ustr" where
  "hit_path L a h = get_path_virtual L (hit_src h) (path_field a)"

definition hit_pairs :: "pylib \<Rightarrow> args \<Rightarrow> Detector list \<Rightarrow> hit \<Rightarrow> (ustr \<times> ustr) list" where
  "hit_pairs L a detectors h = extract_from_text L (hit_text L a h) detectors"

definition mk_row :: "ustr \<Rightarrow> ustr \<Rightarrow> ustr \<times> ustr \<Rightarrow> row" where
  "mk_row path doc_id p = (fst p, snd p, path, doc_id)"

definition hit_rows :: "pylib \<Rightarrow> args \<Rightarrow> Detector list \<Rightarrow> hit \<Rightarrow> row list" where
  "hit_rows L a detectors h = map (mk_row (hit_path L a h) (hit_doc_id h)) (hit_pairs L a detectors h)"

text \<open>
  The report as the specification words it: a row is skipped when its key was already seen.
\<close>

definition row_key :: "row \<Rightarrow> ustr \<times> ustr \<times> ustr" where
  "row_key r = (case r of (d, v, p, i) \<Rightarrow> (d, v, p))"

fun fresh_rows :: "(ustr \<times> ustr \<times> ustr) set \<Rightarrow> row list \<Rightarrow> row list" where
  "fresh_rows seen [] = []"
| "fresh_rows seen (r # rs) =
     (if row_key r \<in> seen then fresh_rows seen rs
      else r # fresh_rows (insert (row_key r) seen) rs)"

definition written_rows :: "bool \<Rightarrow> (ustr \<times> ustr \<times> ustr) set \<Rightarrow> row list \<Rightarrow> row list" where
  "written_rows dd seen rs = (if dd then fresh_rows seen rs else rs)"

text \<open>A value that is no object, or an object without the key.\<close>

definition lacks_key :: "pyval \<Rightarrow> ustr \<Rightarrow> bool" where
  "lacks_key v part = (case v of PDict kvs \<Rightarrow> map_of kvs part = None | _ \<Rightarrow> True)"

text \<open>The update operation of a hit: its header line and its body line.\<close>

definition hit_update :: "pylib \<Rightarrow> args \<Rightarrow> Detector list \<Rightarrow> (ustr \<rightharpoonup> ustr) \<Rightarrow> hit \<Rightarrow> bulk_line list" where
  "hit_update L a detectors fmap h =
     [UpdateHeader (index a) (hit_doc_id h) 3,
      ScriptBody (group_fields (\<lambda>d. target_field L d fmap (field_prefix a))
                    (hit_pairs L a detectors h) [])]"

text \<open>The state after the rows of a hit are written.\<close>

definition hit_reported :: "pylib \<Rightarrow> args \<Rightarrow> Detector list \<Rightarrow> hit \<Rightarrow> 'st run_state \<Rightarrow> 'st run_state" where
  "hit_reported L a detectors h st =
     write_rows (dedupe a) (hit_path L a h) (hit_doc_id h) (hit_pairs L a detectors h)
       (st \<lparr> docs_count := docs_count st + 1 \<rparr>)"

text \<open>The findings of a list of hits, as report rows, in order.\<close>

definition run_rows :: "pylib \<Rightarrow> args \<Rightarrow> Detector list \<Rightarrow> hit list \<Rightarrow> row list" where
  "run_rows L a detectors hs = concat (map (hit_rows L a detectors) hs)"

text \<open>
  A list without its repetitions, in the order of the first occurrences; \<open>add_new\<close> is one
  step of it.
\<close>

definition add_new :: "'a list \<Rightarrow> 'a \<Rightarrow> 'a list" where
  "add_new acc x = (if x \<in> set acc then acc else acc @ [x])"

definition first_seen :: "'a list \<Rightarrow> 'a list" where
  "first_seen xs = rev (remdups (rev xs))"

text \<open>
  The lines the run has put into bulk requests or still holds in its buffer. When the last
  request raised, the buffer is what that request carried.
\<close>

definition emitted_lines :: "error option \<times> 'st run_state \<Rightarrow> bulk_line list" where
  "emitted_lines r =
     concat (posted (snd r)) @ (case fst r of None \<Rightarrow> bulk_lines (snd r) | Some e \<Rightarrow> [])"

text \<open>One turn of the grouping loop, for a finding with its field.\<close>

definition group_step ::
  "(ustr \<times> ustr list) list \<Rightarrow> ustr \<Rightarrow> ustr \<Rightarrow> (ustr \<times> ustr list) list" where
  "group_step ftv fld v =
     (let ftv1 = setdefault_field ftv fld
      in if v \<in> set (field_values ftv1 fld) then ftv1 else append_value ftv1 fld v)"

text \<open>
  What a decoded bulk response makes the client print, and the replies on which the client
  raises: no connection, a status from 400 to 599, or a body that is not JSON.
\<close>

definition bulk_printed :: "bulk_data \<Rightarrow> diag list" where
  "bulk_printed data =
     (if data_errors data
      then [BULK_ITEM_ERRORS (take 5 (filter item_has_error (data_items data)))] else [])"

definition bulk_fails :: "bulk_data http_result \<Rightarrow> bool" where
  "bulk_fails reply =
     (case reply of
        ConnError \<Rightarrow> True
      | Response code body \<Rightarrow> (400 \<le> code \<and> code < 600) \<or> body = None)"

text \<open>
  A response after which the pagination continues: a non-empty batch and a cursor token.
  \<open>pages_served\<close> says that the store, asked the initial request and then each continuation
  with the token of the page before, answers with the given pages, each but the last one a
  page after which the pagination continues, and ends with a page after which it does not
  or, after the pages, with a reply on which the client raises the given exception; the
  last argument is the state in which this leaves the store.
\<close>

definition goes_on :: "scroll_data \<Rightarrow> bool" where
  "goes_on p =
     (data_hits p \<noteq> [] \<and> (case data_scroll_id p of None \<Rightarrow> False | Some tok \<Rightarrow> tok \<noteq> []))"

fun pages_served ::
  "'st store \<Rightarrow> ustr \<Rightarrow> 'st \<Rightarrow> search_request \<Rightarrow> scroll_data list \<Rightarrow> error option \<Rightarrow> 'st \<Rightarrow> bool" where
  "pages_served es scroll st req [] e st1 =
     (case post_search es st req of
        (r, s) \<Rightarrow> (case e of None \<Rightarrow> False | Some err \<Rightarrow> read_page r = Inl err \<and> st1 = s))"
| "pages_served es scroll st req (p # ps) e st1 =
     (case post_search es st req of
        (r, s) \<Rightarrow>
          read_page r = Inr p \<and>
          (if goes_on p
           then (case data_scroll_id p of
                   None \<Rightarrow> False
                 | Some tok \<Rightarrow> pages_served es scroll s (ContinueScroll scroll tok) ps e st1)
           else ps = [] \<and> e = None \<and> st1 = s))"

section \<open>Sample data for evaluation\<close>

text \<open>
  A fragment of the Unicode database, for evaluating the functions on concrete inputs:
  the ASCII digits and the Arabic-Indic digits (U+0660..U+0669) are decimal digits;
  superscript two, three and one (U+00B2, U+00B3, U+00B9) pass \<open>isdigit\<close> but \<open>int\<close> raises on
  them. Case mapping is the ASCII one and \<open>repr\<close> covers None, booleans and integers. The
  regular expression engine is a toy one that ignores the pattern: it finds the maximal runs
  of ASCII digits, spaces and hyphens that begin and end with a digit.
\<close>

definition sample_isdigit :: "uchar \<Rightarrow> bool" where
  "sample_isdigit c =
     ((48 \<le> c \<and> c \<le> 57) \<or> (0x660 \<le> c \<and> c \<le> 0x669) \<or> c = 0xB2 \<or> c = 0xB3 \<or> c = 0xB9)"

definition sample_int_of_char :: "uchar \<Rightarrow> int option" where
  "sample_int_of_char c =
     (if 48 \<le> c \<and> c \<le> 57 then Some (int c - 48)
      else if 0x660 \<le> c \<and> c \<le> 0x669 then Some (int c - 0x660)
      else None)"

definition sample_repr :: "pyval \<Rightarrow> ustr" where
  "sample_repr v =
     (case v of
        PNone \<Rightarrow> u ''None''
      | PBool b \<Rightarrow> (if b then u ''True'' else u ''False'')
      | PInt n \<Rightarrow> str_int n
      | _ \<Rightarrow> u ''<repr>'')"

definition run_char :: "uchar \<Rightarrow> bool" where
  "run_char c = (ascii_digit c \<or> c = 32 \<or> c = 45)"

definition flush_run :: "ustr \<Rightarrow> ustr list" where
  "flush_run cur =
     (let m = rev (dropWhile (\<lambda>c. \<not> ascii_digit c) cur) in if m = [] then [] else [m])"

fun scan_runs :: "ustr \<Rightarrow> ustr \<Rightarrow> ustr list" where
  "scan_runs cur [] = flush_run cur"
| "scan_runs cur (c # cs) =
     (if run_char c \<and> (cur \<noteq> [] \<or> ascii_digit c) then scan_runs (c # cur) cs
      else flush_run cur @ scan_runs [] cs)"

definition sample_lib :: pylib where
  "sample_lib =
     \<lparr> isdigit = sample_isdigit,
       int_of_char = sample_int_of_char,
       lower = map (\<lambda>c. if 65 \<le> c \<and> c \<le> 90 then c + 32 else c),
       upper = map (\<lambda>c. if 97 \<le> c \<and> c \<le> 122 then c - 32 else c),
       repr = sample_repr,
       re_valid = (\<lambda>src fl. True),
       finditer = (\<lambda>p text. scan_runs [] text) \<rparr>"

text \<open>
  A store that replays given replies: the state is the list of replies still to come for
  the search endpoint and for the bulk endpoint; a request when the list is empty fails.
\<close>

definition replay_store :: "(scroll_data http_result list \<times> bulk_data http_result list) store" where
  "replay_store =
     \<lparr> post_search = (\<lambda>(ss, bs) req. case ss of [] \<Rightarrow> (ConnError, ([], bs)) | r # rs \<Rightarrow> (r, (rs, bs))),
       post_bulk = (\<lambda>(ss, bs) actions. case bs of [] \<Rightarrow> (ConnError, (ss, [])) | r # rs \<Rightarrow> (r, (ss, rs))) \<rparr>"

definition default_args :: args where
  "default_args =
     \<lparr> index = u ''docs'', content_field = u ''content'',
       alt_content_field = Some (u ''attachment.content''), path_field = u ''path.virtual'',
       dedupe = False, detectors_yaml = None, field_prefix = u ''pii.'',
       apply_updates = False, bulk_size = 1000 \<rparr>"

text \<open>Two documents with the text in the alternate field; the primary is empty or null.\<close>

definition doc_empty_primary :: pydict where
  "doc_empty_primary =
     [(u ''content'', PStr []),
      (u ''attachment'', PDict [(u ''content'', PStr (u ''SIN 123 456 789''))])]"

definition doc_alt_only :: pydict where
  "doc_alt_only =
     [(u ''content'', PNone),
      (u ''attachment'', PDict [(u ''content'', PStr (u ''SIN 123 456 789''))])]"

definition hit_no_source :: hit where
  "hit_no_source = \<lparr> hit_id = Some (u ''1''), hit_source = None \<rparr>"

text \<open>Hits with a national-ID in the primary field, and the options of a run.\<close>

definition sin_source :: pydict where
  "sin_source =
     [(u ''content'', PStr (u ''SIN 123 456 789 here'')),
      (u ''path'', PDict [(u ''virtual'', PStr (u ''/a/b''))])]"

definition hit_a :: hit where
  "hit_a = \<lparr> hit_id = Some (u ''1''), hit_source = Some sin_source \<rparr>"

definition hit_b :: hit where
  "hit_b = \<lparr> hit_id = Some (u ''2''), hit_source = Some sin_source \<rparr>"

definition hit_anonymous :: hit where
  "hit_anonymous = \<lparr> hit_id = None, hit_source = Some sin_source \<rparr>"

definition report_args :: "bool \<Rightarrow> bool \<Rightarrow> args" where
  "report_args dd upd = default_args \<lparr> dedupe := dd, apply_updates := upd \<rparr>"

text \<open>
  A hit without any finding; a hit whose text names the same number twice; a second
  detector without normalizer, mapped to the field of the built-in one.
\<close>

definition hit_plain :: hit where
  "hit_plain = \<lparr> hit_id = Some (u ''7''), hit_source = Some [(u ''content'', PStr (u ''hello''))] \<rparr>"

definition hit_twice :: hit where
  "hit_twice =
     \<lparr> hit_id = Some (u ''9''),
       hit_source = Some [(u ''content'', PStr (u ''123456789,123456789''))] \<rparr>"

definition raw_detector :: Detector where
  "raw_detector = (make_nas_detector sample_lib) \<lparr> name := u ''RAW'', normalizer := None \<rparr>"

definition raw_map :: "ustr \<rightharpoonup> ustr" where
  "raw_map = map_of [(u ''RAW'', u ''nas_norm'')]"

text \<open>Items of a bulk response, and the lines of one update operation.\<close>

definition item_conflict :: bulk_item where
  "item_conflict =
     [(u ''update'', [(u ''status'', PInt 409), (u ''error'', PStr (u ''version_conflict''))])]"

definition item_ok :: bulk_item where
  "item_ok = [(u ''update'', [(u ''status'', PInt 200)])]"

definition one_update :: "bulk_line list" where
  "one_update =
     [UpdateHeader (u ''docs'') (u ''1'') 3, ScriptBody [(u ''nas_norm'', [u ''123-456-789''])]]"






text \<open>
  Pages of a search: one with hits and a token, an empty one that still has a token, and
  one with a hit and no token.
\<close>

definition page_one :: scroll_data where
  "page_one = \<lparr> data_scroll_id = Some (u ''c1''), data_hits = [hit_a, hit_b] \<rparr>"

definition page_empty :: scroll_data where
  "page_empty = \<lparr> data_scroll_id = Some (u ''c2''), data_hits = [] \<rparr>"

definition page_last :: scroll_data where
  "page_last = \<lparr> data_scroll_id = None, data_hits = [hit_anonymous] \<rparr>"

section \<open>Digit folding\<close>

lemma str_int_digit: "0 \<le> v \<Longrightarrow> v \<le> 9 \<Longrightarrow> str_int v = [48 + nat v]"
  by (simp add: str_int_def str_nat.simps)

lemma unicode_digits_to_ascii_map_filter:
  "unicode_digits_to_ascii L s = map (\<lambda>ch. 48 + digit_value L ch) (filter (decimal_digit L) s)"
  by (induction s) (auto simp: decimal_digit_def digit_value_def str_int_digit split: option.splits)

lemma digit_value_le_9: "decimal_digit L ch \<Longrightarrow> digit_value L ch \<le> 9"
  by (auto simp: decimal_digit_def digit_value_def split: option.splits)

lemma unicode_digits_to_ascii_all_ascii:
  "list_all ascii_digit (unicode_digits_to_ascii L s)"
  using digit_value_le_9
  by (induction s) (auto simp: unicode_digits_to_ascii_map_filter ascii_digit_def)

lemma unicode_digits_to_ascii_append:
  "unicode_digits_to_ascii L (s @ t) = unicode_digits_to_ascii L s @ unicode_digits_to_ascii L t"
  by (simp add: unicode_digits_to_ascii_map_filter)

text \<open>
  C3. For every string, the digit fold contains only the ASCII digits 0-9; its length is the
  number of characters of the input that are classified as decimal digits; it is the input's
  decimal digits in their input order, each mapped to its ASCII digit, so that every other
  character, also one that stands between two digits, is discarded.
\<close>

theorem C3_unicode_digits_to_ascii:
  "list_all ascii_digit (unicode_digits_to_ascii L s)
   \<and> length (unicode_digits_to_ascii L s) = length (filter (decimal_digit L) s)
   \<and> unicode_digits_to_ascii L s
       = map (\<lambda>ch. 48 + digit_value L ch) (filter (decimal_digit L) s)
   \<and> unicode_digits_to_ascii L (filter (\<lambda>ch. \<not> decimal_digit L ch) s) = []"
proof -
  have "unicode_digits_to_ascii L (filter (\<lambda>ch. \<not> decimal_digit L ch) s) = []"
    by (simp add: unicode_digits_to_ascii_map_filter)
  moreover have "length (unicode_digits_to_ascii L s) = length (filter (decimal_digit L) s)"
    by (simp add: unicode_digits_to_ascii_map_filter)
  ultimately show ?thesis
    using unicode_digits_to_ascii_all_ascii [of L s]
      unicode_digits_to_ascii_map_filter [of L s]
    by blast
qed

section \<open>The national-ID normalizer\<close>

lemma ascii_lib_isdigit: "ascii_lib L \<Longrightarrow> c < 128 \<Longrightarrow> isdigit L c = ascii_digit c"
  by (simp add: ascii_lib_def list_all_iff)

lemma ascii_lib_int: "ascii_lib L \<Longrightarrow> ascii_digit c \<Longrightarrow> int_of_char L c = Some (int c - 48)"
  by (auto simp: ascii_lib_def list_all_iff ascii_digit_def)

lemma ascii_lib_sample: "ascii_lib sample_lib"
  unfolding ascii_lib_def list_all_iff
  by (auto simp: sample_lib_def sample_isdigit_def sample_int_of_char_def ascii_digit_def)

lemma nas_example_1:
  assumes "ascii_lib L"
  shows "nas_norm L (u ''123 456 789'') = Some (u ''123-456-789'')"
  using assms
  by (simp add: nas_norm_def u_def ascii_lib_isdigit ascii_lib_int ascii_digit_def str_int_digit slice_def)

lemma nas_example_2:
  assumes "ascii_lib L"
  shows "nas_norm L (u ''123-45'') = None"
  using assms
  by (simp add: nas_norm_def u_def ascii_lib_isdigit ascii_lib_int ascii_digit_def str_int_digit slice_def)

lemma three_slices:
  assumes "length d = 9"
  shows "slice 0 3 d @ slice 3 6 d @ slice 6 9 d = d"
proof -
  have "take 3 (drop 6 d) = drop 6 d"
    using assms by simp
  moreover have "take 3 (drop 3 d) @ drop 6 d = drop 3 d"
    using append_take_drop_id [of 3 "drop 3 d"] by simp
  ultimately show ?thesis
    using append_take_drop_id [of 3 d] by (simp add: slice_def)
qed

lemma nas_norm_shape:
  assumes "length (unicode_digits_to_ascii L s) = 9"
  shows "\<exists>a b c. length a = 3 \<and> length b = 3 \<and> length c = 3
           \<and> a @ b @ c = unicode_digits_to_ascii L s
           \<and> nas_norm L s = Some (a @ u ''-'' @ b @ u ''-'' @ c)"
proof -
  let ?d = "unicode_digits_to_ascii L s"
  have "slice 0 3 ?d @ slice 3 6 ?d @ slice 6 9 ?d = ?d"
    using assms by (rule three_slices)
  moreover have "length (slice 0 3 ?d) = 3" "length (slice 3 6 ?d) = 3" "length (slice 6 9 ?d) = 3"
    using assms by (simp_all add: slice_def)
  moreover have "nas_norm L s = Some (slice 0 3 ?d @ u ''-'' @ slice 3 6 ?d @ u ''-'' @ slice 6 9 ?d)"
    using assms by (simp add: nas_norm_def Let_def)
  ultimately show ?thesis by blast
qed

lemma find_val_nas: "find_val (make_nas_detector L) s = nas_norm L s"
  by (auto simp: find_val_def make_nas_detector_def nas_norm_def Let_def u_def)

text \<open>
  C2. The national-ID normalizer folds the raw match to its digits. When the fold does not
  have exactly 9 digits it returns nothing, and the detector yields no finding for the match;
  when it has exactly 9 digits the result is the three groups of three digits joined by
  hyphens, DDD-DDD-DDD. With a runtime that agrees with Python on ASCII, "123 456 789" gives
  "123-456-789" and "123-45" gives nothing.
\<close>

theorem C2_nas_normalizer:
  "(length (unicode_digits_to_ascii L s) \<noteq> 9 \<longrightarrow>
      nas_norm L s = None \<and> find_val (make_nas_detector L) s = None)
   \<and> (length (unicode_digits_to_ascii L s) = 9 \<longrightarrow>
        (\<exists>a b c. length a = 3 \<and> length b = 3 \<and> length c = 3
           \<and> a @ b @ c = unicode_digits_to_ascii L s
           \<and> nas_norm L s = Some (a @ u ''-'' @ b @ u ''-'' @ c)
           \<and> find_val (make_nas_detector L) s = Some (a @ u ''-'' @ b @ u ''-'' @ c)))
   \<and> (ascii_lib L \<longrightarrow>
        nas_norm L (u ''123 456 789'') = Some (u ''123-456-789'')
        \<and> nas_norm L (u ''123-45'') = None)
   \<and> Detector_find L (make_nas_detector L) text
        = List.map_filter (nas_norm L) (finditer L (pattern (make_nas_detector L)) text)"
proof -
  have a: "length (unicode_digits_to_ascii L s) \<noteq> 9 \<longrightarrow>
      nas_norm L s = None \<and> find_val (make_nas_detector L) s = None"
    by (simp add: find_val_nas) (simp add: nas_norm_def)
  have b: "length (unicode_digits_to_ascii L s) = 9 \<longrightarrow>
        (\<exists>a b c. length a = 3 \<and> length b = 3 \<and> length c = 3
           \<and> a @ b @ c = unicode_digits_to_ascii L s
           \<and> nas_norm L s = Some (a @ u ''-'' @ b @ u ''-'' @ c)
           \<and> find_val (make_nas_detector L) s = Some (a @ u ''-'' @ b @ u ''-'' @ c))"
    using nas_norm_shape [of L s] by (simp add: find_val_nas)
  have c: "ascii_lib L \<longrightarrow>
        nas_norm L (u ''123 456 789'') = Some (u ''123-456-789'')
        \<and> nas_norm L (u ''123-45'') = None"
    using nas_example_1 nas_example_2 by blast
  have "find_val (make_nas_detector L) = nas_norm L"
    by (rule ext) (rule find_val_nas)
  then have d: "Detector_find L (make_nas_detector L) text
        = List.map_filter (nas_norm L) (finditer L (pattern (make_nas_detector L)) text)"
    by (simp add: Detector_find_def)
  from a b c d show ?thesis by blast
qed

theorem C2_nas_normalizer_witness:
  "ascii_lib sample_lib
   \<and> length (unicode_digits_to_ascii sample_lib (u ''123 456 789'')) = 9
   \<and> nas_norm sample_lib (u ''123 456 789'') = Some (u ''123-456-789'')
   \<and> find_val (make_nas_detector sample_lib) (u ''123 456 789'') = Some (u ''123-456-789'')
   \<and> nas_norm sample_lib (u ''123-45'') = None"
proof -
  have len: "length (unicode_digits_to_ascii sample_lib (u ''123 456 789'')) = 9"
    by (simp add: u_def sample_lib_def sample_isdigit_def sample_int_of_char_def str_int_digit)
  have ex: "nas_norm sample_lib (u ''123 456 789'') = Some (u ''123-456-789'')
        \<and> nas_norm sample_lib (u ''123-45'') = None"
    using C2_nas_normalizer [of sample_lib "u ''123 456 789''"] ascii_lib_sample by blast
  then show ?thesis
    using len ascii_lib_sample by (simp add: find_val_nas)
qed

section \<open>Separators\<close>

lemma nbsp_replace_map: "foldl (\<lambda>t ch. replace_char ch b t) s xs = map (\<lambda>c. if c \<in> set xs then b else c) s"
  by (induction xs arbitrary: s) (auto simp: replace_char_def)

lemma dropWhile_stop: "\<not> P c \<Longrightarrow> dropWhile P (cs @ c # ys) = dropWhile P cs @ c # ys"
  by (induction cs) auto

lemma collapse_ws_split:
  "\<not> is_hws c \<Longrightarrow> collapse_ws (xs @ c # ys) = collapse_ws xs @ c # collapse_ws ys"
  by (induction xs rule: collapse_ws.induct) (auto simp: dropWhile_stop)

lemma collapse_ws_run:
  assumes "r \<noteq> []" and "list_all is_hws r"
  shows "collapse_ws r = [32]"
proof (cases r)
  case Nil
  with assms show ?thesis by simp
next
  case (Cons c cs)
  with assms have "is_hws c" and "dropWhile is_hws cs = []"
    by (simp_all add: list_all_iff)
  with Cons show ?thesis by (simp del: dropWhile_eq_Nil_conv)
qed

lemma normalize_separators_map:
  "normalize_separators s =
     collapse_ws (map (\<lambda>c. if nbsp_char c then 32 else if dash_char c then 45 else c) s)"
proof -
  have "32 \<notin> set UNICODE_DASHES"
    by (simp add: UNICODE_DASHES_def)
  then have "dash_sub (map (\<lambda>c. if c \<in> set NBSP_SET then 32 else c) s)
      = map (\<lambda>c. if nbsp_char c then 32 else if dash_char c then 45 else c) s"
    by (auto simp: dash_sub_def nbsp_char_def dash_char_def)
  then show ?thesis
    by (simp add: normalize_separators_def nbsp_replace_map)
qed

text \<open>
  C8 (amended). \<open>normalize_separators\<close> rewrites only separator characters: the five
  non-breaking, narrow and zero-width spaces, the five Unicode dashes, and space, tab,
  carriage return, form feed and vertical tab. Every other character, in particular the line
  feed, stays where it is: the text is normalised on its left and on its right. A Unicode
  dash becomes an ASCII hyphen, and a run of spaces of either kind becomes one ASCII space.
\<close>

theorem C8_normalize_separators:
  "(\<not> separator_char c \<longrightarrow>
      normalize_separators (xs @ c # ys) = normalize_separators xs @ c # normalize_separators ys)
   \<and> normalize_separators (xs @ 10 # ys) = normalize_separators xs @ 10 # normalize_separators ys
   \<and> (dash_char c \<longrightarrow>
        normalize_separators (xs @ c # ys)
          = normalize_separators xs @ 45 # normalize_separators ys)
   \<and> (r \<noteq> [] \<and> list_all (\<lambda>c. nbsp_char c \<or> is_hws c) r \<longrightarrow> normalize_separators r = [32])
   \<and> normalize_separators [] = []
   \<and> separator_char c = (c \<in> {0xA0, 0x2007, 0x202F, 0x2009, 0x200B}
                           \<or> c \<in> {0x2010, 0x2011, 0x2012, 0x2013, 0x2014}
                           \<or> c \<in> {32, 9, 13, 12, 11})"
proof -
  have a: "\<not> separator_char c \<longrightarrow>
      normalize_separators (xs @ c # ys) = normalize_separators xs @ c # normalize_separators ys"
    by (simp add: normalize_separators_map separator_char_def collapse_ws_split)
  have "\<not> separator_char 10"
    by (simp add: separator_char_def nbsp_char_def dash_char_def is_hws_def NBSP_SET_def
        UNICODE_DASHES_def)
  then have b: "normalize_separators (xs @ 10 # ys)
      = normalize_separators xs @ 10 # normalize_separators ys"
    by (simp add: normalize_separators_map separator_char_def collapse_ws_split)
  have "\<not> is_hws 45" "\<not> nbsp_char c" if "dash_char c"
    using that by (auto simp: is_hws_def nbsp_char_def dash_char_def NBSP_SET_def UNICODE_DASHES_def)
  then have c: "dash_char c \<longrightarrow>
        normalize_separators (xs @ c # ys)
          = normalize_separators xs @ 45 # normalize_separators ys"
    by (simp add: normalize_separators_map collapse_ws_split)
  have d: "r \<noteq> [] \<and> list_all (\<lambda>c. nbsp_char c \<or> is_hws c) r \<longrightarrow> normalize_separators r = [32]"
  proof
    assume h: "r \<noteq> [] \<and> list_all (\<lambda>c. nbsp_char c \<or> is_hws c) r"
    let ?m = "map (\<lambda>c. if nbsp_char c then 32 else if dash_char c then 45 else c) r"
    have "list_all is_hws ?m"
      using h by (auto simp: list_all_iff is_hws_def dash_char_def UNICODE_DASHES_def)
    moreover have "?m \<noteq> []" using h by simp
    ultimately have "collapse_ws ?m = [32]"
      by (rule collapse_ws_run [rotated])
    then show "normalize_separators r = [32]"
      by (simp only: normalize_separators_map)
  qed
  have e: "normalize_separators [] = []"
    by (simp add: normalize_separators_def)
  have f: "separator_char c = (c \<in> {0xA0, 0x2007, 0x202F, 0x2009, 0x200B}
                           \<or> c \<in> {0x2010, 0x2011, 0x2012, 0x2013, 0x2014}
                           \<or> c \<in> {32, 9, 13, 12, 11})"
    by (simp add: separator_char_def nbsp_char_def dash_char_def is_hws_def NBSP_SET_def
        UNICODE_DASHES_def)
  from a b c d e f show ?thesis by blast
qed

theorem C8_normalize_separators_witness:
  "\<not> separator_char 98
   \<and> normalize_separators ((u ''a'' @ [9, 0xA0]) @ 98 # [0x2013, 10, 32, 32] @ u ''c'')
       = u ''a b-'' @ [10] @ u '' c''
   \<and> dash_char 0x2013
   \<and> normalize_separators [0xA0, 9, 32, 13] = [32]"
  using C8_normalize_separators [of 98 "u ''a'' @ [9, 0xA0]" "[0x2013, 10, 32, 32] @ u ''c''" "[0xA0, 9, 32, 13]"]
  by (simp add: normalize_separators_def u_def NBSP_SET_def replace_char_def dash_sub_def
      UNICODE_DASHES_def is_hws_def separator_char_def nbsp_char_def dash_char_def)

text \<open>
  The carriage return is none of the listed spaces and dashes and is neither space, tab,
  vertical tab nor form feed, yet it is rewritten to a space.
\<close>

theorem C8_carriage_return_counterexample:
  "normalize_separators (u ''a'' @ [13] @ u ''b'') = u ''a b''
   \<and> \<not> nbsp_char 13 \<and> \<not> dash_char 13 \<and> (13::nat) \<notin> {32, 9, 11, 12}"
  by (simp add: normalize_separators_def u_def NBSP_SET_def replace_char_def dash_sub_def
      UNICODE_DASHES_def is_hws_def nbsp_char_def dash_char_def)

section \<open>The loop of main: report rows\<close>

lemma write_rows_eq:
  "write_rows dd path doc_id pairs st =
     st \<lparr> rows := rows st @ written_rows dd (seen_csv st) (map (mk_row path doc_id) pairs),
          seen_csv := (if dd then seen_csv st \<union> row_key ` set (map (mk_row path doc_id) pairs)
                       else seen_csv st),
          pairs_count := pairs_count st
             + length (written_rows dd (seen_csv st) (map (mk_row path doc_id) pairs)) \<rparr>"
proof (induction pairs arbitrary: st)
  case Nil
  show ?case by (simp add: written_rows_def)
next
  case (Cons p pairs)
  let ?r = "mk_row path doc_id p"
  let ?rs = "map (mk_row path doc_id) pairs"
  obtain d v where p: "p = (d, v)" by (cases p)
  then have key: "row_key ?r = (d, v, path)"
    by (simp add: mk_row_def row_key_def)
  show ?case
  proof (cases "dd \<and> row_key ?r \<in> seen_csv st")
    case True
    then have "write_rows dd path doc_id (p # pairs) st = write_rows dd path doc_id pairs st"
      using key by (simp add: p)
    moreover have "written_rows dd (seen_csv st) (?r # ?rs) = written_rows dd (seen_csv st) ?rs"
      using True by (simp add: written_rows_def)
    moreover have "seen_csv st \<union> row_key ` set (?r # ?rs) = seen_csv st \<union> row_key ` set ?rs"
      using True by auto
    ultimately show ?thesis
      by (simp add: Cons.IH)
  next
    case False
    let ?st1 = "st \<lparr> rows := rows st @ [?r],
                     seen_csv := (if dd then insert (row_key ?r) (seen_csv st) else seen_csv st),
                     pairs_count := pairs_count st + 1 \<rparr>"
    have "write_rows dd path doc_id (p # pairs) st = write_rows dd path doc_id pairs ?st1"
      using False key by (simp add: p mk_row_def)
    moreover have "written_rows dd (seen_csv st) (?r # ?rs)
        = ?r # written_rows dd (seen_csv ?st1) ?rs"
      using False by (simp add: written_rows_def)
    ultimately show ?thesis
      by (simp add: Cons.IH)
  qed
qed

lemma extract_from_text_empty: "extract_from_text L [] detectors = []"
  by (simp add: extract_from_text_def)

lemma process_hit_skip:
  assumes "hit_text L a h = []"
  shows "process_hit L es a detectors fmap h st = (None, st \<lparr> docs_count := docs_count st + 1 \<rparr>)"
  using assms by (simp add: process_hit_def hit_text_def hit_src_def Let_def)

lemma process_hit_no_id:
  assumes "hit_text L a h \<noteq> []" and "hit_doc_id h = []"
  shows "process_hit L es a detectors fmap h st =
     (None, write_rows (dedupe a) (hit_path L a h) [] (hit_pairs L a detectors h)
              (st \<lparr> docs_count := docs_count st + 1 \<rparr>))"
  using assms
  by (simp add: process_hit_def hit_text_def hit_src_def hit_path_def hit_pairs_def hit_doc_id_def
      Let_def)

lemma lookup_path_append:
  "lookup_path cur (ps @ qs) = (case lookup_path cur ps of None \<Rightarrow> None | Some v \<Rightarrow> lookup_path v qs)"
  by (induction ps arbitrary: cur) (auto split: pyval.splits option.splits)

lemma lookup_path_missing:
  assumes "lookup_path cur ps = Some v" and "lacks_key v part"
  shows "lookup_path cur (ps @ part # qs) = None"
  using assms by (simp add: lookup_path_append lacks_key_def split: pyval.splits)

lemma setdefault_field_nonempty: "setdefault_field ftv f \<noteq> []"
  by (cases ftv) (auto simp: setdefault_field_def split: option.splits)

lemma group_fields_keeps_nonempty: "ftv \<noteq> [] \<Longrightarrow> group_fields tf pairs ftv \<noteq> []"
proof (induction pairs arbitrary: ftv)
  case Nil
  then show ?case by simp
next
  case (Cons p pairs)
  obtain d v where p: "p = (d, v)" by (cases p)
  show ?case
    unfolding p by (simp add: Let_def Cons.IH setdefault_field_nonempty append_value_def)
qed

lemma group_fields_nonempty: "pairs \<noteq> [] \<Longrightarrow> group_fields tf pairs ftv \<noteq> []"
proof (cases pairs)
  case Nil
  then show "pairs \<noteq> [] \<Longrightarrow> ?thesis" by simp
next
  case (Cons p ps)
  obtain d v where p: "p = (d, v)" by (cases p)
  show ?thesis
    unfolding Cons p
    by (simp add: Let_def group_fields_keeps_nonempty setdefault_field_nonempty append_value_def)
qed

lemma process_hit_no_update:
  assumes "\<not> apply_updates a \<or> hit_pairs L a detectors h = [] \<or> hit_doc_id h = []"
  shows "process_hit L es a detectors fmap h st = (None, hit_reported L a detectors h st)"
proof (cases "hit_text L a h = []")
  case True
  then have "hit_pairs L a detectors h = []"
    by (simp add: hit_pairs_def extract_from_text_def)
  then show ?thesis
    using True by (simp add: process_hit_skip hit_reported_def)
next
  case False
  then show ?thesis
    using assms
    by (auto simp: process_hit_def hit_reported_def hit_text_def hit_src_def hit_path_def
        hit_pairs_def hit_doc_id_def Let_def)
qed

lemma process_hit_update:
  assumes "apply_updates a" and "hit_pairs L a detectors h \<noteq> []" and "hit_doc_id h \<noteq> []"
  shows "process_hit L es a detectors fmap h st =
     (let st1 = hit_reported L a detectors h st;
          st2 = st1 \<lparr> bulk_lines := bulk_lines st1 @ hit_update L a detectors fmap h,
                      updates_count := updates_count st1 + 1 \<rparr>
      in if bulk_size a \<le> int (length (bulk_lines st2) div 2) then flush_bulk es st2
         else (None, st2))"
proof -
  have "hit_text L a h \<noteq> []"
    using assms(2) by (auto simp: hit_pairs_def extract_from_text_def)
  moreover have "group_fields (\<lambda>d. target_field L d fmap (field_prefix a))
      (hit_pairs L a detectors h) [] \<noteq> []"
    using assms(2) by (rule group_fields_nonempty)
  ultimately show ?thesis
    using assms
    by (simp add: process_hit_def hit_reported_def hit_update_def hit_text_def hit_src_def
        hit_path_def hit_pairs_def hit_doc_id_def Let_def)
qed

lemma flush_bulk_report:
  "rows (snd (flush_bulk es st)) = rows st
   \<and> seen_csv (snd (flush_bulk es st)) = seen_csv st
   \<and> pairs_count (snd (flush_bulk es st)) = pairs_count st
   \<and> docs_count (snd (flush_bulk es st)) = docs_count st
   \<and> updates_count (snd (flush_bulk es st)) = updates_count st"
  by (simp add: flush_bulk_def Let_def split: prod.splits sum.splits)

lemma hit_reported_eq:
  "hit_reported L a detectors h st =
     st \<lparr> docs_count := docs_count st + 1,
          rows := rows st @ written_rows (dedupe a) (seen_csv st) (hit_rows L a detectors h),
          seen_csv := (if dedupe a then seen_csv st \<union> row_key ` set (hit_rows L a detectors h)
                       else seen_csv st),
          pairs_count := pairs_count st
             + length (written_rows (dedupe a) (seen_csv st) (hit_rows L a detectors h)) \<rparr>"
  by (simp add: hit_reported_def write_rows_eq hit_rows_def)

lemma process_hit_report:
  "rows (snd (process_hit L es a detectors fmap h st))
     = rows st @ written_rows (dedupe a) (seen_csv st) (hit_rows L a detectors h)
   \<and> seen_csv (snd (process_hit L es a detectors fmap h st))
     = (if dedupe a then seen_csv st \<union> row_key ` set (hit_rows L a detectors h) else seen_csv st)
   \<and> pairs_count (snd (process_hit L es a detectors fmap h st))
     = pairs_count st + length (written_rows (dedupe a) (seen_csv st) (hit_rows L a detectors h))
   \<and> docs_count (snd (process_hit L es a detectors fmap h st)) = docs_count st + 1"
proof (cases "apply_updates a \<and> hit_pairs L a detectors h \<noteq> [] \<and> hit_doc_id h \<noteq> []")
  case True
  then show ?thesis
    by (simp add: process_hit_update Let_def flush_bulk_report hit_reported_eq)
next
  case False
  then have "process_hit L es a detectors fmap h st = (None, hit_reported L a detectors h st)"
    by (intro process_hit_no_update) blast
  then show ?thesis
    by (simp add: hit_reported_eq)
qed

lemma fresh_rows_append:
  "fresh_rows S (xs @ ys) = fresh_rows S xs @ fresh_rows (S \<union> row_key ` set xs) ys"
  by (induction xs arbitrary: S) (auto simp: insert_absorb)

lemma written_rows_append:
  "written_rows dd S (xs @ ys)
     = written_rows dd S xs @ written_rows dd (if dd then S \<union> row_key ` set xs else S) ys"
  by (simp add: written_rows_def fresh_rows_append)

lemma fresh_rows_keys: "row_key ` set (fresh_rows S F) = row_key ` set F - S"
  by (induction F arbitrary: S) auto

lemma fresh_rows_distinct: "distinct (map row_key (fresh_rows S F))"
proof (induction F arbitrary: S)
  case Nil
  show ?case by simp
next
  case (Cons r F)
  have "row_key r \<notin> row_key ` set (fresh_rows (insert (row_key r) S) F)"
    by (simp add: fresh_rows_keys)
  then show ?case by (simp add: Cons.IH)
qed

lemma fresh_rows_snoc:
  "fresh_rows S (F @ [r])
     = fresh_rows S F @ (if row_key r \<in> S \<union> row_key ` set F then [] else [r])"
  by (simp add: fresh_rows_append)

lemma fresh_rows_first_occurrences:
  "fresh_rows {} F
     = map ((!) F) (filter (\<lambda>i. row_key (F ! i) \<notin> row_key ` set (take i F)) [0..<length F])"
proof (induction F rule: rev_induct)
  case Nil
  show ?case by simp
next
  case (snoc r F)
  let ?keep = "\<lambda>G i. row_key (G ! i) \<notin> row_key ` set (take i G)"
  have k: "filter (?keep (F @ [r])) [0..<length F] = filter (?keep F) [0..<length F]"
    by (rule filter_cong) (auto simp: nth_append)
  have m: "map ((!) (F @ [r])) (filter (?keep F) [0..<length F])
      = map ((!) F) (filter (?keep F) [0..<length F])"
    by (rule map_cong) (auto simp: nth_append)
  have idx: "[0..<length (F @ [r])] = [0..<length F] @ [length F]"
    by simp
  have last: "?keep (F @ [r]) (length F) = (row_key r \<notin> row_key ` set F)"
    by simp
  have "map ((!) (F @ [r])) (filter (?keep (F @ [r])) [0..<length (F @ [r])])
      = map ((!) F) (filter (?keep F) [0..<length F])
          @ (if row_key r \<in> row_key ` set F then [] else [r])"
    unfolding idx filter_append map_append k m
    by simp
  then show ?case
    by (simp only: fresh_rows_snoc snoc.IH) simp
qed

lemma run_hits_report:
  assumes "run_hits L es a detectors fmap hs st = (e, st1)"
  shows "\<exists>n \<le> length hs.
           docs_count st1 = docs_count st + n
         \<and> (e = None \<longrightarrow> n = length hs)
         \<and> rows st1 = rows st
             @ written_rows (dedupe a) (seen_csv st) (run_rows L a detectors (take n hs))
         \<and> seen_csv st1 = (if dedupe a
                            then seen_csv st \<union> row_key ` set (run_rows L a detectors (take n hs))
                            else seen_csv st)
         \<and> pairs_count st1 = pairs_count st
             + length (written_rows (dedupe a) (seen_csv st) (run_rows L a detectors (take n hs)))"
  using assms
proof (induction hs arbitrary: st)
  case Nil
  then show ?case by (simp add: run_rows_def written_rows_def)
next
  case (Cons h hs)
  obtain e0 st0 where ph: "process_hit L es a detectors fmap h st = (e0, st0)"
    by (cases "process_hit L es a detectors fmap h st")
  note rep = process_hit_report [of L es a detectors fmap h st, unfolded ph, simplified]
  show ?case
  proof (cases e0)
    case (Some err)
    with Cons.prems ph have "e = Some err" "st1 = st0" by simp_all
    with rep show ?thesis
      by (intro exI [of _ 1]) (simp add: run_rows_def)
  next
    case None
    with Cons.prems ph have "run_hits L es a detectors fmap hs st0 = (e, st1)" by simp
    from Cons.IH [OF this] obtain n where n: "n \<le> length hs"
      "docs_count st1 = docs_count st0 + n"
      "e = None \<longrightarrow> n = length hs"
      "rows st1 = rows st0
             @ written_rows (dedupe a) (seen_csv st0) (run_rows L a detectors (take n hs))"
      "seen_csv st1 = (if dedupe a
                            then seen_csv st0 \<union> row_key ` set (run_rows L a detectors (take n hs))
                            else seen_csv st0)"
      "pairs_count st1 = pairs_count st0
             + length (written_rows (dedupe a) (seen_csv st0) (run_rows L a detectors (take n hs)))"
      by blast
    have split: "run_rows L a detectors (h # take n hs)
        = hit_rows L a detectors h @ run_rows L a detectors (take n hs)"
      by (simp add: run_rows_def)
    show ?thesis
    proof (cases "dedupe a")
      case True
      with n rep show ?thesis
        by (intro exI [of _ "Suc n"]) (simp add: split written_rows_append Un_assoc image_Un)
    next
      case False
      with n rep show ?thesis
        by (intro exI [of _ "Suc n"]) (simp add: split written_rows_append)
    qed
  qed
qed

lemma main_loop_report:
  assumes "main_loop L es a detectors fmap hs ended st = (e, st1)"
  shows "\<exists>n \<le> length hs.
           docs_count st1 = docs_count st + n
         \<and> (e = None \<longrightarrow> n = length hs)
         \<and> rows st1 = rows st
             @ written_rows (dedupe a) (seen_csv st) (run_rows L a detectors (take n hs))
         \<and> seen_csv st1 = (if dedupe a
                            then seen_csv st \<union> row_key ` set (run_rows L a detectors (take n hs))
                            else seen_csv st)
         \<and> pairs_count st1 = pairs_count st
             + length (written_rows (dedupe a) (seen_csv st) (run_rows L a detectors (take n hs)))"
proof -
  obtain e0 st0 where rh: "run_hits L es a detectors fmap hs st = (e0, st0)"
    by (cases "run_hits L es a detectors fmap hs st")
  from run_hits_report [OF rh] obtain n where n: "n \<le> length hs"
      "docs_count st0 = docs_count st + n"
      "e0 = None \<longrightarrow> n = length hs"
      "rows st0 = rows st
             @ written_rows (dedupe a) (seen_csv st) (run_rows L a detectors (take n hs))"
      "seen_csv st0 = (if dedupe a
                            then seen_csv st \<union> row_key ` set (run_rows L a detectors (take n hs))
                            else seen_csv st)"
      "pairs_count st0 = pairs_count st
             + length (written_rows (dedupe a) (seen_csv st) (run_rows L a detectors (take n hs)))"
    by blast
  have same: "rows st1 = rows st0 \<and> seen_csv st1 = seen_csv st0
      \<and> pairs_count st1 = pairs_count st0 \<and> docs_count st1 = docs_count st0
      \<and> (e = None \<longrightarrow> e0 = None)"
    using assms rh flush_bulk_report [of es st0]
    by (auto simp: main_loop_def split: option.splits if_splits)
  show ?thesis
    using n same by (intro exI [of _ n]) simp
qed

section \<open>Text selection\<close>

text \<open>
  C1 (amended). The extraction text is the string form of the primary field whenever that field
  is present and not null, also when it is the empty string: then the text is empty and the
  alternate field is not consulted. Only when the primary field is absent or null is the text
  the value found by the dotted-path lookup of the alternate field, if that value is truthy;
  a missing key at any segment of the path, or no alternate field, makes the fallback empty.
  A document whose text is empty is skipped: only the document counter changes, so there is
  no report row and no update operation.
\<close>

theorem C1_text_selection:
  "(map_of src cf = Some v \<and> v \<noteq> PNone \<longrightarrow> get_text_from_source L src cf alt = py_str L v)
   \<and> (map_of src cf = Some (PStr s) \<longrightarrow> get_text_from_source L src cf alt = s)
   \<and> (map_of src cf = None \<or> map_of src cf = Some PNone \<longrightarrow>
        get_text_from_source L src cf alt = alt_text L src alt)
   \<and> alt_text L src None = [] \<and> alt_text L src (Some []) = []
   \<and> (alt = Some p \<and> p \<noteq> [] \<and> lookup_path (PDict src) (split_on 46 p) = Some cur \<longrightarrow>
        alt_text L src alt = (if truthy cur then py_str L cur else []))
   \<and> (alt = Some p \<and> p \<noteq> [] \<and> split_on 46 p = ps @ part # qs
        \<and> lookup_path (PDict src) ps = Some w \<and> lacks_key w part \<longrightarrow>
        alt_text L src alt = [])
   \<and> (hit_text L a h = [] \<longrightarrow>
        process_hit L es a detectors fmap h st
          = (None, st \<lparr> docs_count := docs_count st + 1 \<rparr>))"
proof -
  have 1: "map_of src cf = Some v \<and> v \<noteq> PNone \<longrightarrow> get_text_from_source L src cf alt = py_str L v"
    by (simp add: get_text_from_source_def)
  have 2: "map_of src cf = Some (PStr s) \<longrightarrow> get_text_from_source L src cf alt = s"
    by (simp add: get_text_from_source_def py_str_def)
  have 3: "map_of src cf = None \<or> map_of src cf = Some PNone \<longrightarrow>
        get_text_from_source L src cf alt = alt_text L src alt"
    by (auto simp: get_text_from_source_def)
  have 4: "alt_text L src None = []" "alt_text L src (Some []) = []"
    by (simp_all add: alt_text_def)
  have 5: "alt = Some p \<and> p \<noteq> [] \<and> lookup_path (PDict src) (split_on 46 p) = Some cur \<longrightarrow>
        alt_text L src alt = (if truthy cur then py_str L cur else [])"
    by (simp add: alt_text_def)
  have 6: "alt = Some p \<and> p \<noteq> [] \<and> split_on 46 p = ps @ part # qs
        \<and> lookup_path (PDict src) ps = Some w \<and> lacks_key w part \<longrightarrow>
        alt_text L src alt = []"
    using lookup_path_missing [of "PDict src" ps w part qs] by (auto simp: alt_text_def)
  have 7: "hit_text L a h = [] \<longrightarrow>
        process_hit L es a detectors fmap h st
          = (None, st \<lparr> docs_count := docs_count st + 1 \<rparr>)"
    using process_hit_skip by blast
  from 1 2 3 4 5 6 7 show ?thesis by blast
qed

theorem C1_text_selection_witness:
  "map_of doc_alt_only (u ''content'') = Some PNone
   \<and> get_text_from_source sample_lib doc_alt_only (u ''content'') (Some (u ''attachment.content''))
       = u ''SIN 123 456 789''
   \<and> split_on 46 (u ''attachment.body'') = [u ''attachment''] @ u ''body'' # []
   \<and> alt_text sample_lib doc_alt_only (Some (u ''attachment.body'')) = []
   \<and> hit_text sample_lib default_args hit_no_source = []
   \<and> process_hit sample_lib replay_store default_args [] Map.empty hit_no_source
        (init_state ([], []))
       = (None, (init_state ([], [])) \<lparr> docs_count := 1 \<rparr>)"
  using C1_text_selection [of doc_alt_only "u ''content''" PNone sample_lib
      "Some (u ''attachment.content'')" "[]" "u ''attachment.content''"
      "PStr (u ''SIN 123 456 789'')" "[u ''attachment'']" "u ''body''" "[]"
      "PDict [(u ''content'', PStr (u ''SIN 123 456 789''))]" default_args hit_no_source]
    C1_text_selection [of doc_alt_only "u ''content''" PNone sample_lib
      "Some (u ''attachment.body'')" "[]" "u ''attachment.body''"
      "PStr (u ''SIN 123 456 789'')" "[u ''attachment'']" "u ''body''" "[]"
      "PDict [(u ''content'', PStr (u ''SIN 123 456 789''))]" default_args hit_no_source
      replay_store "[]" Map.empty "init_state ([], [])"]
  by (simp add: doc_alt_only_def u_def alt_text_def py_str_def lacks_key_def hit_text_def
      hit_src_def hit_no_source_def default_args_def get_text_from_source_def init_state_def)

lemma split_attachment_content:
  "split_on 46 (u ''attachment.content'') = [u ''attachment'', u ''content'']"
  by (simp add: u_def)

text \<open>
  The primary field is the empty string and the alternate path leads to a text, yet the
  extraction text is empty.
\<close>

theorem C1_empty_primary_counterexample:
  "map_of doc_empty_primary (u ''content'') = Some (PStr [])
   \<and> lookup_path (PDict doc_empty_primary) (split_on 46 (u ''attachment.content''))
       = Some (PStr (u ''SIN 123 456 789''))
   \<and> get_text_from_source sample_lib doc_empty_primary (u ''content'')
        (Some (u ''attachment.content'')) = []"
  by (simp add: split_attachment_content)
     (simp add: doc_empty_primary_def get_text_from_source_def py_str_def u_def)

section \<open>Evaluation of the sample documents\<close>

lemma sample_normalize:
  "normalize_separators (u ''SIN 123 456 789 here'') = u ''SIN 123 456 789 here''"
  by (simp add: normalize_separators_def u_def NBSP_SET_def replace_char_def dash_sub_def
      UNICODE_DASHES_def is_hws_def)

lemma sample_scan: "scan_runs [] (u ''SIN 123 456 789 here'') = [u ''123 456 789'']"
  by (simp add: u_def run_char_def ascii_digit_def flush_run_def)

lemma sample_find:
  "Detector_find sample_lib (make_nas_detector sample_lib) (u ''SIN 123 456 789 here'')
     = [u ''123-456-789'']"
proof -
  have "finditer sample_lib (pattern (make_nas_detector sample_lib)) (u ''SIN 123 456 789 here'')
      = [u ''123 456 789'']"
    by (simp add: sample_lib_def sample_scan)
  moreover have "find_val (make_nas_detector sample_lib) (u ''123 456 789'') = Some (u ''123-456-789'')"
    by (simp add: find_val_nas nas_example_1 ascii_lib_sample)
  ultimately show ?thesis
    by (simp add: Detector_find_def List.map_filter_simps)
qed

lemma sample_text:
  "get_text_from_source sample_lib sin_source (u ''content'') (Some (u ''attachment.content''))
     = u ''SIN 123 456 789 here''"
  by (simp add: get_text_from_source_def sin_source_def py_str_def u_def)

lemma sample_path: "get_path_virtual sample_lib sin_source (u ''path.virtual'') = u ''/a/b''"
proof -
  have "split_on 46 (u ''path.virtual'') = [u ''path'', u ''virtual'']"
    by (simp add: u_def)
  then show ?thesis
    by (simp add: get_path_virtual_def sin_source_def py_str_def) (simp add: u_def)
qed

lemma sample_pairs:
  "extract_from_text sample_lib (u ''SIN 123 456 789 here'') [make_nas_detector sample_lib]
     = [(u ''NAS'', u ''123-456-789'')]"
proof -
  have "u ''SIN 123 456 789 here'' \<noteq> []" by (simp add: u_def)
  then show ?thesis
    by (simp add: extract_from_text_def sample_normalize sample_find Let_def)
       (simp add: make_nas_detector_def)
qed

lemma sample_hit_pairs:
  assumes "hit_source h = Some sin_source"
  shows "hit_pairs sample_lib (report_args dd upd) [make_nas_detector sample_lib] h
     = [(u ''NAS'', u ''123-456-789'')]"
  using assms
  by (simp add: hit_pairs_def hit_text_def hit_src_def report_args_def default_args_def
      sample_text sample_pairs)

lemma sample_hit_rows:
  assumes "hit_source h = Some sin_source"
  shows "hit_rows sample_lib (report_args dd upd) [make_nas_detector sample_lib] h
     = [(u ''NAS'', u ''123-456-789'', u ''/a/b'', hit_doc_id h)]"
  using assms
  by (simp add: hit_rows_def sample_hit_pairs hit_path_def hit_src_def mk_row_def)
     (simp add: report_args_def default_args_def sample_path)

lemma sample_run:
  "main_loop sample_lib replay_store (report_args dd False) [make_nas_detector sample_lib]
     Map.empty [hit_a, hit_b] None (init_state ([], []))
   = (None,
      (init_state ([], []))
        \<lparr> docs_count := 2,
          rows := (if dd then [(u ''NAS'', u ''123-456-789'', u ''/a/b'', u ''1'')]
                   else [(u ''NAS'', u ''123-456-789'', u ''/a/b'', u ''1''),
                         (u ''NAS'', u ''123-456-789'', u ''/a/b'', u ''2'')]),
          seen_csv := (if dd then {(u ''NAS'', u ''123-456-789'', u ''/a/b'')} else {}),
          pairs_count := (if dd then 1 else 2) \<rparr>)"
proof -
  have a: "hit_source hit_a = Some sin_source" and b: "hit_source hit_b = Some sin_source"
    by (simp_all add: hit_a_def hit_b_def)
  have ida: "hit_doc_id hit_a = u ''1''" and idb: "hit_doc_id hit_b = u ''2''"
    by (simp_all add: hit_a_def hit_b_def hit_doc_id_def)
  have no: "\<not> apply_updates (report_args dd False)" and d: "dedupe (report_args dd False) = dd"
    by (simp_all add: report_args_def default_args_def)
  show ?thesis
    by (simp add: main_loop_def process_hit_no_update no hit_reported_eq d
        sample_hit_rows [OF a] sample_hit_rows [OF b] ida idb written_rows_def row_key_def
        init_state_def)
qed

section \<open>Report rows and dedupe\<close>

text \<open>
  C5. For the run over the hits the pagination yields, started from the initial state: with
  dedupe enabled, the rows written are exactly the findings whose key (detector, value, path)
  -- the document id is not part of it -- does not occur among the earlier findings of the
  run, so the keys of the rows are distinct and every key of a finding has its row; with
  dedupe disabled the rows are the findings, one row each. The counter of emitted rows is
  the number of rows written. The findings are those of the hits processed, which are all
  the hits when no exception ends the run.
\<close>

theorem C5_report_dedupe:
  assumes "main_loop L es a detectors fmap hs ended (init_state s) = (e, st1)"
  shows "docs_count st1 \<le> length hs \<and> (e = None \<longrightarrow> docs_count st1 = length hs)
    \<and> (dedupe a \<longrightarrow>
         (let F = run_rows L a detectors (take (docs_count st1) hs)
          in rows st1 = map ((!) F)
                 (filter (\<lambda>i. row_key (F ! i) \<notin> row_key ` set (take i F)) [0..<length F])
             \<and> rows st1 = fresh_rows {} F
             \<and> distinct (map row_key (rows st1))
             \<and> row_key ` set (rows st1) = row_key ` set F))
    \<and> (\<not> dedupe a \<longrightarrow> rows st1 = run_rows L a detectors (take (docs_count st1) hs))
    \<and> pairs_count st1 = length (rows st1)"
proof -
  from main_loop_report [OF assms] obtain n where n: "n \<le> length hs"
      "docs_count st1 = n"
      "e = None \<longrightarrow> n = length hs"
      "rows st1 = written_rows (dedupe a) {} (run_rows L a detectors (take n hs))"
      "pairs_count st1
         = length (written_rows (dedupe a) {} (run_rows L a detectors (take n hs)))"
    by (auto simp: init_state_def)
  let ?F = "run_rows L a detectors (take n hs)"
  have "dedupe a \<longrightarrow> rows st1 = fresh_rows {} ?F"
    using n(4) by (simp add: written_rows_def)
  moreover have "\<not> dedupe a \<longrightarrow> rows st1 = ?F"
    using n(4) by (simp add: written_rows_def)
  moreover have "distinct (map row_key (fresh_rows {} ?F))"
    by (rule fresh_rows_distinct)
  moreover have "row_key ` set (fresh_rows {} ?F) = row_key ` set ?F"
    by (simp add: fresh_rows_keys)
  moreover note fresh_rows_first_occurrences [of ?F]
  ultimately show ?thesis
    using n(1,2,3,4,5) by (simp add: Let_def)
qed

theorem C5_report_dedupe_witness:
  "rows (snd (main_loop sample_lib replay_store (report_args True False)
            [make_nas_detector sample_lib] Map.empty [hit_a, hit_b] None (init_state ([], []))))
     = [(u ''NAS'', u ''123-456-789'', u ''/a/b'', u ''1'')]
   \<and> pairs_count (snd (main_loop sample_lib replay_store (report_args True False)
            [make_nas_detector sample_lib] Map.empty [hit_a, hit_b] None (init_state ([], []))))
     = 1
   \<and> run_rows sample_lib (report_args True False) [make_nas_detector sample_lib] [hit_a, hit_b]
     = [(u ''NAS'', u ''123-456-789'', u ''/a/b'', u ''1''),
        (u ''NAS'', u ''123-456-789'', u ''/a/b'', u ''2'')]
   \<and> rows (snd (main_loop sample_lib replay_store (report_args False False)
            [make_nas_detector sample_lib] Map.empty [hit_a, hit_b] None (init_state ([], []))))
     = [(u ''NAS'', u ''123-456-789'', u ''/a/b'', u ''1''),
        (u ''NAS'', u ''123-456-789'', u ''/a/b'', u ''2'')]"
proof -
  have a: "hit_source hit_a = Some sin_source" and b: "hit_source hit_b = Some sin_source"
    by (simp_all add: hit_a_def hit_b_def)
  have ida: "hit_doc_id hit_a = u ''1''" and idb: "hit_doc_id hit_b = u ''2''"
    by (simp_all add: hit_a_def hit_b_def hit_doc_id_def)
  have F: "run_rows sample_lib (report_args dd False) [make_nas_detector sample_lib] [hit_a, hit_b]
     = [(u ''NAS'', u ''123-456-789'', u ''/a/b'', u ''1''),
        (u ''NAS'', u ''123-456-789'', u ''/a/b'', u ''2'')]" for dd
    by (simp add: run_rows_def sample_hit_rows [OF a] sample_hit_rows [OF b] ida idb)
  have d: "dedupe (report_args dd False) = dd" for dd
    by (simp add: report_args_def)
  show ?thesis
    using C5_report_dedupe [OF sample_run [of True]] C5_report_dedupe [OF sample_run [of False]]
    by (simp add: sample_run F d row_key_def Let_def)
qed

section \<open>Hits without an id\<close>

text \<open>
  C10 (amended). For a hit whose id is missing or empty and whose text yields at least one
  finding, the report rows of the findings are written with the empty string as document id
  and counted as for any other hit, subject to the run-scoped dedupe: all of them when dedupe
  is off, and those whose key was not seen before when it is on. Nothing else happens: the
  bulk buffer, the counter of updates, the requests sent and the store are unchanged, and no
  exception is raised, so only the update operation is suppressed.
\<close>

theorem C10_missing_id:
  assumes "hit_id h = None \<or> hit_id h = Some []"
    and "hit_pairs L a detectors h \<noteq> []"
  shows "hit_doc_id h = []
    \<and> process_hit L es a detectors fmap h st =
        (None,
         st \<lparr> docs_count := docs_count st + 1,
              rows := rows st @ written_rows (dedupe a) (seen_csv st) (hit_rows L a detectors h),
              seen_csv := (if dedupe a
                           then seen_csv st \<union> row_key ` set (hit_rows L a detectors h)
                           else seen_csv st),
              pairs_count := pairs_count st
                + length (written_rows (dedupe a) (seen_csv st) (hit_rows L a detectors h)) \<rparr>)
    \<and> hit_rows L a detectors h = map (mk_row (hit_path L a h) []) (hit_pairs L a detectors h)
    \<and> (\<not> dedupe a \<longrightarrow>
         written_rows (dedupe a) (seen_csv st) (hit_rows L a detectors h) = hit_rows L a detectors h)
    \<and> bulk_lines (snd (process_hit L es a detectors fmap h st)) = bulk_lines st
    \<and> updates_count (snd (process_hit L es a detectors fmap h st)) = updates_count st
    \<and> posted (snd (process_hit L es a detectors fmap h st)) = posted st
    \<and> store_st (snd (process_hit L es a detectors fmap h st)) = store_st st"
proof -
  have id: "hit_doc_id h = []"
    using assms(1) by (auto simp: hit_doc_id_def)
  then have "process_hit L es a detectors fmap h st = (None, hit_reported L a detectors h st)"
    by (intro process_hit_no_update) simp
  then show ?thesis
    using id by (simp add: hit_reported_eq written_rows_def hit_rows_def)
qed

theorem C10_missing_id_witness:
  "hit_id hit_anonymous = None
   \<and> hit_pairs sample_lib (report_args False True) [make_nas_detector sample_lib] hit_anonymous
       = [(u ''NAS'', u ''123-456-789'')]
   \<and> process_hit sample_lib replay_store (report_args False True) [make_nas_detector sample_lib]
        Map.empty hit_anonymous (init_state ([], []))
       = (None,
          (init_state ([], []))
            \<lparr> docs_count := 1,
              rows := [(u ''NAS'', u ''123-456-789'', u ''/a/b'', [])],
              pairs_count := 1 \<rparr>)
   \<and> process_hit sample_lib replay_store (report_args True True) [make_nas_detector sample_lib]
        Map.empty hit_anonymous (init_state ([], []))
       = (None,
          (init_state ([], []))
            \<lparr> docs_count := 1,
              rows := [(u ''NAS'', u ''123-456-789'', u ''/a/b'', [])],
              seen_csv := {(u ''NAS'', u ''123-456-789'', u ''/a/b'')},
              pairs_count := 1 \<rparr>)
   \<and> process_hit sample_lib replay_store (report_args True True) [make_nas_detector sample_lib]
        Map.empty hit_anonymous
        ((init_state ([], [])) \<lparr> seen_csv := {(u ''NAS'', u ''123-456-789'', u ''/a/b'')} \<rparr>)
       = (None,
          (init_state ([], []))
            \<lparr> seen_csv := {(u ''NAS'', u ''123-456-789'', u ''/a/b'')}, docs_count := 1 \<rparr>)"
proof -
  have src: "hit_source hit_anonymous = Some sin_source" and id: "hit_id hit_anonymous = None"
    by (simp_all add: hit_anonymous_def)
  have idb: "hit_doc_id hit_anonymous = []"
    by (simp add: hit_anonymous_def hit_doc_id_def)
  have pairs: "hit_pairs sample_lib (report_args dd True) [make_nas_detector sample_lib]
      hit_anonymous \<noteq> []" for dd
    by (simp add: sample_hit_pairs [OF src])
  have dd: "dedupe (report_args dd True) = dd" for dd
    by (simp add: report_args_def)
  note step = C10_missing_id [OF disjI1 [OF id] pairs, THEN conjunct2, THEN conjunct1]
  have rws: "hit_rows sample_lib (report_args dd True) [make_nas_detector sample_lib] hit_anonymous
      = [(u ''NAS'', u ''123-456-789'', u ''/a/b'', [])]" for dd
    by (simp add: sample_hit_rows [OF src] idb)
  have 1: "process_hit sample_lib replay_store (report_args False True)
        [make_nas_detector sample_lib] Map.empty hit_anonymous (init_state ([], []))
       = (None,
          (init_state ([], []))
            \<lparr> docs_count := 1,
              rows := [(u ''NAS'', u ''123-456-789'', u ''/a/b'', [])],
              pairs_count := 1 \<rparr>)"
    by (simp add: step rws dd written_rows_def init_state_def)
  have 2: "process_hit sample_lib replay_store (report_args True True)
        [make_nas_detector sample_lib] Map.empty hit_anonymous (init_state ([], []))
       = (None,
          (init_state ([], []))
            \<lparr> docs_count := 1,
              rows := [(u ''NAS'', u ''123-456-789'', u ''/a/b'', [])],
              seen_csv := {(u ''NAS'', u ''123-456-789'', u ''/a/b'')},
              pairs_count := 1 \<rparr>)"
    by (simp add: step rws dd written_rows_def row_key_def init_state_def)
  have 3: "process_hit sample_lib replay_store (report_args True True)
        [make_nas_detector sample_lib] Map.empty hit_anonymous
        ((init_state ([], [])) \<lparr> seen_csv := {(u ''NAS'', u ''123-456-789'', u ''/a/b'')} \<rparr>)
       = (None,
          (init_state ([], []))
            \<lparr> seen_csv := {(u ''NAS'', u ''123-456-789'', u ''/a/b'')}, docs_count := 1 \<rparr>)"
    by (simp add: step rws dd written_rows_def row_key_def init_state_def)
  show ?thesis
    using id 1 2 3 by (simp add: sample_hit_pairs [OF src])
qed

text \<open>
  With dedupe on, the finding of a hit without id is neither written nor counted when an
  earlier hit had the same detector, value and path.
\<close>

lemma sample_run_anonymous:
  "main_loop sample_lib replay_store (report_args True False) [make_nas_detector sample_lib]
     Map.empty [hit_a, hit_anonymous] None (init_state ([], []))
   = (None,
      (init_state ([], []))
        \<lparr> docs_count := 2,
          rows := [(u ''NAS'', u ''123-456-789'', u ''/a/b'', u ''1'')],
          seen_csv := {(u ''NAS'', u ''123-456-789'', u ''/a/b'')},
          pairs_count := 1 \<rparr>)"
proof -
  have a: "hit_source hit_a = Some sin_source" and b: "hit_source hit_anonymous = Some sin_source"
    by (simp_all add: hit_a_def hit_anonymous_def)
  have ida: "hit_doc_id hit_a = u ''1''" and idb: "hit_doc_id hit_anonymous = []"
    by (simp_all add: hit_a_def hit_anonymous_def hit_doc_id_def)
  have no: "\<not> apply_updates (report_args True False)" and d: "dedupe (report_args True False)"
    by (simp_all add: report_args_def default_args_def)
  show ?thesis
    by (simp add: main_loop_def process_hit_no_update no hit_reported_eq d
        sample_hit_rows [OF a] sample_hit_rows [OF b] ida idb written_rows_def row_key_def
        init_state_def)
qed

theorem C10_dedupe_counterexample:
  "hit_id hit_anonymous = None
   \<and> hit_pairs sample_lib (report_args True False) [make_nas_detector sample_lib] hit_anonymous
       = [(u ''NAS'', u ''123-456-789'')]
   \<and> rows (snd (main_loop sample_lib replay_store (report_args True False)
            [make_nas_detector sample_lib] Map.empty [hit_a, hit_anonymous] None
            (init_state ([], []))))
       = [(u ''NAS'', u ''123-456-789'', u ''/a/b'', u ''1'')]
   \<and> pairs_count (snd (main_loop sample_lib replay_store (report_args True False)
            [make_nas_detector sample_lib] Map.empty [hit_a, hit_anonymous] None
            (init_state ([], []))))
       = 1"
proof -
  have src: "hit_source hit_anonymous = Some sin_source" and id: "hit_id hit_anonymous = None"
    by (simp_all add: hit_anonymous_def)
  show ?thesis
    by (simp add: sample_run_anonymous id sample_hit_pairs [OF src])
qed

section \<open>Update grouping\<close>

lemma first_seen_foldl: "foldl add_new [] xs = first_seen xs"
proof (induction xs rule: rev_induct)
  case Nil
  show ?case by (simp add: first_seen_def)
next
  case (snoc x xs)
  have "set (first_seen xs) = set xs"
    by (simp add: first_seen_def)
  then show ?case
    using snoc.IH by (simp add: add_new_def) (simp add: first_seen_def)
qed

lemma first_seen_distinct: "distinct (first_seen xs)"
  by (simp add: first_seen_def)

lemma first_seen_set: "set (first_seen xs) = set xs"
  by (simp add: first_seen_def)

lemma map_of_Some_key: "map_of kvs k = Some x \<Longrightarrow> k \<in> fst ` set kvs"
  by (metis map_of_eq_None_iff option.distinct(1))

lemma map_of_None_key: "map_of kvs k = None \<Longrightarrow> k \<notin> fst ` set kvs"
  by (simp add: map_of_eq_None_iff)

lemma field_values_setdefault:
  "field_values (setdefault_field ftv fld) f = field_values ftv f"
  by (auto simp: field_values_def setdefault_field_def split: option.splits if_splits)

lemma keys_setdefault: "map fst (setdefault_field ftv fld) = add_new (map fst ftv) fld"
  by (auto simp: setdefault_field_def add_new_def split: option.splits
      dest: map_of_Some_key map_of_None_key)

lemma map_of_append_value:
  "map_of (append_value ftv fld v) f
     = map_option (\<lambda>vs. if f = fld then vs @ [v] else vs) (map_of ftv f)"
  by (induction ftv) (auto simp: append_value_def)

lemma field_values_append_value:
  "field_values (append_value ftv fld v) f
     = (if f = fld \<and> fld \<in> fst ` set ftv then field_values ftv f @ [v] else field_values ftv f)"
  by (auto simp: field_values_def map_of_append_value split: option.splits
      dest: map_of_Some_key map_of_None_key)

lemma keys_append_value: "map fst (append_value ftv fld v) = map fst ftv"
  by (induction ftv) (auto simp: append_value_def)

lemma group_fields_Cons:
  "group_fields tf ((d, v) # pairs) ftv = group_fields tf pairs (group_step ftv (tf d) v)"
  by (simp add: group_step_def Let_def)

lemma keys_group_step: "map fst (group_step ftv fld v) = add_new (map fst ftv) fld"
  by (simp add: group_step_def Let_def keys_append_value keys_setdefault)

lemma fld_in_setdefault: "fld \<in> fst ` set (setdefault_field ftv fld)"
proof -
  have "fld \<in> set (map fst (setdefault_field ftv fld))"
    unfolding keys_setdefault by (simp add: add_new_def)
  then show ?thesis by simp
qed

lemma field_values_group_step:
  "field_values (group_step ftv fld v) f
     = (if f = fld then add_new (field_values ftv f) v else field_values ftv f)"
  by (simp add: group_step_def Let_def field_values_append_value field_values_setdefault
      fld_in_setdefault add_new_def)

lemma keys_group_fields:
  "map fst (group_fields tf pairs ftv) = foldl add_new (map fst ftv) (map (tf \<circ> fst) pairs)"
proof (induction pairs arbitrary: ftv)
  case Nil
  show ?case by simp
next
  case (Cons p pairs)
  obtain d v where p: "p = (d, v)" by (cases p)
  show ?case
    unfolding p group_fields_Cons by (simp add: Cons.IH keys_group_step)
qed

lemma field_values_group_fields:
  "field_values (group_fields tf pairs ftv) f
     = foldl add_new (field_values ftv f) (map snd (filter (\<lambda>p. tf (fst p) = f) pairs))"
proof (induction pairs arbitrary: ftv)
  case Nil
  show ?case by simp
next
  case (Cons p pairs)
  obtain d v where p: "p = (d, v)" by (cases p)
  show ?case
    unfolding p group_fields_Cons by (simp add: Cons.IH field_values_group_step)
qed

lemma flush_bulk_emitted:
  "emitted_lines (flush_bulk es st) = concat (posted st) @ bulk_lines st"
  by (simp add: flush_bulk_def emitted_lines_def Let_def split: prod.splits sum.splits)

lemma flush_bulk_updates_count: "updates_count (snd (flush_bulk es st)) = updates_count st"
  by (simp add: flush_bulk_report)

lemma hit_reported_buffer:
  "bulk_lines (hit_reported L a detectors h st) = bulk_lines st
   \<and> posted (hit_reported L a detectors h st) = posted st
   \<and> updates_count (hit_reported L a detectors h st) = updates_count st"
  by (simp add: hit_reported_eq)

text \<open>
  C4 (amended). For every document with updates enabled that has at least one finding and a
  non-empty id, exactly one update operation is emitted, a header line and a body line, and
  the counter of updates grows by one; a document with no finding or without id yields no
  operation. The body groups the findings by their resolved target field: the fields are in
  the order of their first finding, without repetition, and the values of a field are the
  values of its findings in first-seen order, each once, however often a value occurs among
  the findings and whichever detectors produced it.
\<close>

theorem C4_update_grouping:
  "(apply_updates a \<and> hit_pairs L a detectors h \<noteq> [] \<and> hit_doc_id h \<noteq> [] \<longrightarrow>
      emitted_lines (process_hit L es a detectors fmap h st)
        = concat (posted st) @ bulk_lines st
            @ [UpdateHeader (index a) (hit_doc_id h) 3,
               ScriptBody (group_fields (\<lambda>d. target_field L d fmap (field_prefix a))
                             (hit_pairs L a detectors h) [])]
      \<and> updates_count (snd (process_hit L es a detectors fmap h st)) = updates_count st + 1)
   \<and> (\<not> apply_updates a \<or> hit_pairs L a detectors h = [] \<or> hit_doc_id h = [] \<longrightarrow>
        emitted_lines (process_hit L es a detectors fmap h st) = concat (posted st) @ bulk_lines st
        \<and> updates_count (snd (process_hit L es a detectors fmap h st)) = updates_count st)
   \<and> map fst (group_fields tf pairs []) = first_seen (map (tf \<circ> fst) pairs)
   \<and> field_values (group_fields tf pairs []) f
        = first_seen (map snd (filter (\<lambda>p. tf (fst p) = f) pairs))
   \<and> distinct (map fst (group_fields tf pairs []))
   \<and> distinct (field_values (group_fields tf pairs []) f)"
proof -
  have pos: "emitted_lines (process_hit L es a detectors fmap h st)
        = concat (posted st) @ bulk_lines st
            @ [UpdateHeader (index a) (hit_doc_id h) 3,
               ScriptBody (group_fields (\<lambda>d. target_field L d fmap (field_prefix a))
                             (hit_pairs L a detectors h) [])]
      \<and> updates_count (snd (process_hit L es a detectors fmap h st)) = updates_count st + 1"
    if "apply_updates a" "hit_pairs L a detectors h \<noteq> []" "hit_doc_id h \<noteq> []"
    using that
    by (simp add: process_hit_update Let_def flush_bulk_emitted flush_bulk_updates_count
        hit_reported_buffer hit_update_def)
       (simp add: emitted_lines_def hit_reported_buffer)
  have neg: "emitted_lines (process_hit L es a detectors fmap h st) = concat (posted st) @ bulk_lines st
        \<and> updates_count (snd (process_hit L es a detectors fmap h st)) = updates_count st"
    if "\<not> apply_updates a \<or> hit_pairs L a detectors h = [] \<or> hit_doc_id h = []"
    using process_hit_no_update [OF that, of es fmap st]
    by (simp add: emitted_lines_def hit_reported_buffer)
  have keys: "map fst (group_fields tf pairs []) = first_seen (map (tf \<circ> fst) pairs)"
    by (simp add: keys_group_fields first_seen_foldl)
  have vals: "field_values (group_fields tf pairs []) f
        = first_seen (map snd (filter (\<lambda>p. tf (fst p) = f) pairs))"
  proof -
    have "field_values [] f = []"
      by (simp add: field_values_def)
    then show ?thesis
      by (simp add: field_values_group_fields first_seen_foldl)
  qed
  show ?thesis
    using pos neg keys vals first_seen_distinct
    by (simp only: simp_thms) blast
qed

lemma twice_norm:
  "normalize_separators (u ''123456789,123456789'') = u ''123456789,123456789''"
  by (simp add: normalize_separators_def u_def NBSP_SET_def replace_char_def dash_sub_def
      UNICODE_DASHES_def is_hws_def)

lemma twice_scan:
  "scan_runs [] (u ''123456789,123456789'') = [u ''123456789'', u ''123456789'']"
  by (simp add: u_def run_char_def ascii_digit_def flush_run_def)

lemma twice_norms:
  "nas_norm sample_lib (u ''123456789'') = Some (u ''123-456-789'')"
  by (simp add: nas_norm_def u_def sample_lib_def sample_isdigit_def sample_int_of_char_def
      str_int_digit slice_def)

lemma twice_pairs:
  "hit_pairs sample_lib (report_args dd upd) [make_nas_detector sample_lib, raw_detector] hit_twice
     = [(u ''NAS'', u ''123-456-789''), (u ''NAS'', u ''123-456-789''),
        (u ''RAW'', u ''123456789''), (u ''RAW'', u ''123456789'')]"
proof -
  have t: "hit_text sample_lib (report_args dd upd) hit_twice = u ''123456789,123456789''"
    by (simp add: hit_text_def hit_src_def hit_twice_def report_args_def default_args_def
        get_text_from_source_def py_str_def)
  have ne: "u ''123456789,123456789'' \<noteq> []" "u ''123-456-789'' \<noteq> []" "u ''123456789'' \<noteq> []"
    by (simp_all add: u_def)
  have f: "finditer sample_lib p (u ''123456789,123456789'') = [u ''123456789'', u ''123456789'']"
    for p
    by (simp add: sample_lib_def twice_scan)
  have n: "normalizer raw_detector = None"
      "normalizer (make_nas_detector sample_lib) = Some (nas_norm sample_lib)"
      "name raw_detector = u ''RAW''" "name (make_nas_detector sample_lib) = u ''NAS''"
    by (simp_all add: raw_detector_def make_nas_detector_def)
  have v: "find_val (make_nas_detector sample_lib) (u ''123456789'') = Some (u ''123-456-789'')"
      "find_val raw_detector (u ''123456789'') = Some (u ''123456789'')"
    by (simp_all add: find_val_def n twice_norms ne)
  show ?thesis
    by (simp add: hit_pairs_def t extract_from_text_def ne twice_norm Detector_find_def f
        List.map_filter_simps v n Let_def)
qed

lemma twice_fields:
  "group_fields (\<lambda>d. target_field sample_lib d raw_map (u ''pii.''))
     [(u ''NAS'', u ''123-456-789''), (u ''NAS'', u ''123-456-789''),
      (u ''RAW'', u ''123456789''), (u ''RAW'', u ''123456789'')] []
   = [(u ''nas_norm'', [u ''123-456-789'', u ''123456789''])]"
proof -
  have nas: "target_field sample_lib (u ''NAS'') raw_map (u ''pii.'') = u ''nas_norm''"
    by (simp add: target_field_def raw_map_def sample_lib_def replace_char_def Let_def u_def)
  have raw: "target_field sample_lib (u ''RAW'') raw_map (u ''pii.'') = u ''nas_norm''"
    by (simp add: target_field_def raw_map_def)
  have ne: "u ''123-456-789'' \<noteq> u ''123456789''" "u ''123456789'' \<noteq> u ''123-456-789''"
    by (simp_all add: u_def)
  have 1: "group_step [] (u ''nas_norm'') (u ''123-456-789'')
      = [(u ''nas_norm'', [u ''123-456-789''])]"
    by (simp add: group_step_def setdefault_field_def field_values_def append_value_def)
  have 2: "group_step [(u ''nas_norm'', [u ''123-456-789''])] (u ''nas_norm'') (u ''123-456-789'')
      = [(u ''nas_norm'', [u ''123-456-789''])]"
    by (simp add: group_step_def setdefault_field_def field_values_def append_value_def)
  have 3: "group_step [(u ''nas_norm'', [u ''123-456-789''])] (u ''nas_norm'') (u ''123456789'')
      = [(u ''nas_norm'', [u ''123-456-789'', u ''123456789''])]"
    by (simp add: group_step_def setdefault_field_def field_values_def append_value_def ne)
  have 4: "group_step [(u ''nas_norm'', [u ''123-456-789'', u ''123456789''])] (u ''nas_norm'')
        (u ''123456789'')
      = [(u ''nas_norm'', [u ''123-456-789'', u ''123456789''])]"
    by (simp add: group_step_def setdefault_field_def field_values_def append_value_def)
  show ?thesis
    by (simp only: group_fields_Cons group_fields.simps nas raw 1 2 3 4)
qed

theorem C4_update_grouping_witness:
  "apply_updates (report_args False True)
   \<and> hit_doc_id hit_twice = u ''9''
   \<and> hit_pairs sample_lib (report_args False True) [make_nas_detector sample_lib, raw_detector]
        hit_twice
       = [(u ''NAS'', u ''123-456-789''), (u ''NAS'', u ''123-456-789''),
          (u ''RAW'', u ''123456789''), (u ''RAW'', u ''123456789'')]
   \<and> emitted_lines (process_hit sample_lib replay_store (report_args False True)
        [make_nas_detector sample_lib, raw_detector] raw_map hit_twice (init_state ([], [])))
       = [UpdateHeader (u ''docs'') (u ''9'') 3,
          ScriptBody [(u ''nas_norm'', [u ''123-456-789'', u ''123456789''])]]
   \<and> updates_count (snd (process_hit sample_lib replay_store (report_args False True)
        [make_nas_detector sample_lib, raw_detector] raw_map hit_twice (init_state ([], []))))
       = 1"
proof -
  have id: "hit_doc_id hit_twice = u ''9''"
    by (simp add: hit_doc_id_def hit_twice_def)
  have a: "apply_updates (report_args False True)" "index (report_args False True) = u ''docs''"
      "field_prefix (report_args False True) = u ''pii.''"
    by (simp_all add: report_args_def default_args_def)
  have pairs_ne: "hit_pairs sample_lib (report_args False True)
      [make_nas_detector sample_lib, raw_detector] hit_twice \<noteq> []"
    by (simp add: twice_pairs)
  have id_ne: "hit_doc_id hit_twice \<noteq> []"
    by (simp add: id u_def)
  have init: "posted (init_state ([], []) :: (scroll_data http_result list \<times> bulk_data http_result list) run_state) = []"
      "bulk_lines (init_state ([], []) :: (scroll_data http_result list \<times> bulk_data http_result list) run_state) = []"
      "updates_count (init_state ([], []) :: (scroll_data http_result list \<times> bulk_data http_result list) run_state) = 0"
    by (simp_all add: init_state_def)
  note step = C4_update_grouping [of "report_args False True" sample_lib
        "[make_nas_detector sample_lib, raw_detector]" hit_twice replay_store raw_map
        "init_state ([], [])", THEN conjunct1, THEN mp,
        OF conjI [OF a(1) conjI [OF pairs_ne id_ne]]]
  have "emitted_lines (process_hit sample_lib replay_store (report_args False True)
        [make_nas_detector sample_lib, raw_detector] raw_map hit_twice (init_state ([], [])))
       = [] @ [] @ [UpdateHeader (u ''docs'') (u ''9'') 3,
          ScriptBody [(u ''nas_norm'', [u ''123-456-789'', u ''123456789''])]]
     \<and> updates_count (snd (process_hit sample_lib replay_store (report_args False True)
        [make_nas_detector sample_lib, raw_detector] raw_map hit_twice (init_state ([], []))))
       = 0 + 1"
    using step by (simp only: twice_pairs a twice_fields id init concat.simps)
  then show ?thesis
    using a(1) id twice_pairs by simp
qed

text \<open>
  Updates are enabled and the document has a text, but no finding: no operation is emitted
  for it.
\<close>

lemma plain_text: "hit_text sample_lib (report_args dd upd) hit_plain = u ''hello''"
  by (simp add: hit_text_def hit_src_def hit_plain_def report_args_def default_args_def
      get_text_from_source_def py_str_def u_def)

lemma plain_pairs:
  "hit_pairs sample_lib (report_args dd upd) [make_nas_detector sample_lib] hit_plain = []"
proof -
  have n: "normalize_separators (u ''hello'') = u ''hello''"
    by (simp add: normalize_separators_def u_def NBSP_SET_def replace_char_def dash_sub_def
        UNICODE_DASHES_def is_hws_def)
  have s: "scan_runs [] (u ''hello'') = []"
    by (simp add: u_def run_char_def ascii_digit_def flush_run_def)
  have f: "finditer sample_lib p (u ''hello'') = []" for p
    by (simp add: sample_lib_def s)
  show ?thesis
    by (simp add: hit_pairs_def plain_text extract_from_text_def n Detector_find_def f
        List.map_filter_simps)
qed

theorem C4_no_findings_counterexample:
  "apply_updates (report_args False True)
   \<and> hit_text sample_lib (report_args False True) hit_plain = u ''hello''
   \<and> process_hit sample_lib replay_store (report_args False True) [make_nas_detector sample_lib]
        Map.empty hit_plain (init_state ([], []))
       = (None, (init_state ([], [])) \<lparr> docs_count := 1 \<rparr>)
   \<and> bulk_lines ((init_state ([], [])) \<lparr> docs_count := 1 \<rparr>
         :: (scroll_data http_result list \<times> bulk_data http_result list) run_state) = []"
proof -
  have "hit_rows sample_lib (report_args False True) [make_nas_detector sample_lib] hit_plain = []"
    by (simp add: hit_rows_def plain_pairs)
  then have "process_hit sample_lib replay_store (report_args False True)
        [make_nas_detector sample_lib] Map.empty hit_plain (init_state ([], []))
       = (None, (init_state ([], [])) \<lparr> docs_count := 1 \<rparr>)"
    by (simp add: process_hit_no_update plain_pairs hit_reported_eq written_rows_def
        init_state_def)
  moreover have "apply_updates (report_args False True)"
    by (simp add: report_args_def)
  ultimately show ?thesis
    by (simp add: plain_text) (simp add: init_state_def)
qed

section \<open>Bulk submission\<close>

lemma ESClient_bulk_one_request:
  "snd (snd (ESClient_bulk es actions st)) = snd (post_bulk es st actions)"
  by (simp add: ESClient_bulk_def bulk_read_def
      split: prod.splits http_result.splits option.splits)

lemma ESClient_bulk_http_error:
  assumes "post_bulk es st actions = (Response code body, s1)" and "400 \<le> code" and "code < 600"
  shows "ESClient_bulk es actions st = (Inl (HTTPError code), [BULK_HTTP_ERROR code], s1)"
  using assms by (simp add: ESClient_bulk_def raise_for_status_def)

lemma ESClient_bulk_ok:
  assumes "post_bulk es st actions = (Response code (Some data), s1)" and "code < 400"
  shows "ESClient_bulk es actions st = (Inr data, bulk_printed data, s1)"
  using assms by (simp add: ESClient_bulk_def bulk_read_def bulk_printed_def)

lemma ESClient_bulk_fails:
  "isl (fst (ESClient_bulk es actions st)) = bulk_fails (fst (post_bulk es st actions))"
  by (auto simp: ESClient_bulk_def bulk_read_def bulk_fails_def raise_for_status_def
      split: prod.splits http_result.splits option.splits)

text \<open>
  C7 (amended). A bulk response with a status from 400 to 599 raises a fatal error that ends
  the run (as does a failed connection or a body that is not JSON), and nothing else makes
  the submission fail: a response with a status below 400, every 2xx among them, whose
  payload reports per-item errors does not abort the run. At most 5 of the items with an
  error are printed as a diagnostic, the buffer is cleared and processing continues; the
  client sends one request and never sends the failed items again.
\<close>

theorem C7_bulk_errors:
  "(post_bulk es st actions = (Response code body, s1) \<and> 400 \<le> code \<and> code < 600 \<longrightarrow>
      ESClient_bulk es actions st = (Inl (HTTPError code), [BULK_HTTP_ERROR code], s1))
   \<and> (post_bulk es st actions = (Response code (Some data), s1) \<and> code < 400 \<longrightarrow>
        ESClient_bulk es actions st = (Inr data, bulk_printed data, s1))
   \<and> isl (fst (ESClient_bulk es actions st)) = bulk_fails (fst (post_bulk es st actions))
   \<and> snd (snd (ESClient_bulk es actions st)) = snd (post_bulk es st actions)
   \<and> (data_errors data \<longrightarrow>
        (\<exists>errs. bulk_printed data = [BULK_ITEM_ERRORS errs] \<and> length errs \<le> 5
           \<and> errs = take 5 (filter item_has_error (data_items data))))
   \<and> (\<not> data_errors data \<longrightarrow> bulk_printed data = [])
   \<and> (bulk_lines rs \<noteq> []
        \<and> post_bulk es (store_st rs) (bulk_lines rs) = (Response code (Some data), s1)
        \<and> code < 400 \<longrightarrow>
        flush_bulk es rs
          = (None, rs \<lparr> store_st := s1, stderr := stderr rs @ bulk_printed data,
                         posted := posted rs @ [bulk_lines rs], bulk_lines := [] \<rparr>))
   \<and> (bulk_lines rs \<noteq> []
        \<and> post_bulk es (store_st rs) (bulk_lines rs) = (Response code body, s1)
        \<and> 400 \<le> code \<and> code < 600 \<longrightarrow>
        flush_bulk es rs
          = (Some (HTTPError code),
             rs \<lparr> store_st := s1, stderr := stderr rs @ [BULK_HTTP_ERROR code],
                  posted := posted rs @ [bulk_lines rs] \<rparr>))
   \<and> (fst (process_hit L es a detectors fmap h rs) \<noteq> None \<longrightarrow>
        run_hits L es a detectors fmap (h # hs) rs = process_hit L es a detectors fmap h rs)"
proof -
  have 1: "post_bulk es st actions = (Response code body, s1) \<and> 400 \<le> code \<and> code < 600 \<longrightarrow>
      ESClient_bulk es actions st = (Inl (HTTPError code), [BULK_HTTP_ERROR code], s1)"
    by (simp add: ESClient_bulk_def raise_for_status_def)
  have 2: "post_bulk es st actions = (Response code (Some data), s1) \<and> code < 400 \<longrightarrow>
        ESClient_bulk es actions st = (Inr data, bulk_printed data, s1)"
    by (simp add: ESClient_bulk_def bulk_read_def bulk_printed_def)
  have 5: "data_errors data \<longrightarrow>
        (\<exists>errs. bulk_printed data = [BULK_ITEM_ERRORS errs] \<and> length errs \<le> 5
           \<and> errs = take 5 (filter item_has_error (data_items data)))"
    by (simp add: bulk_printed_def)
  have 6: "\<not> data_errors data \<longrightarrow> bulk_printed data = []"
    by (simp add: bulk_printed_def)
  have 7: "bulk_lines rs \<noteq> []
        \<and> post_bulk es (store_st rs) (bulk_lines rs) = (Response code (Some data), s1)
        \<and> code < 400 \<longrightarrow>
        flush_bulk es rs
          = (None, rs \<lparr> store_st := s1, stderr := stderr rs @ bulk_printed data,
                         posted := posted rs @ [bulk_lines rs], bulk_lines := [] \<rparr>)"
    by (simp add: flush_bulk_def ESClient_bulk_ok Let_def)
  have 8: "bulk_lines rs \<noteq> []
        \<and> post_bulk es (store_st rs) (bulk_lines rs) = (Response code body, s1)
        \<and> 400 \<le> code \<and> code < 600 \<longrightarrow>
        flush_bulk es rs
          = (Some (HTTPError code),
             rs \<lparr> store_st := s1, stderr := stderr rs @ [BULK_HTTP_ERROR code],
                  posted := posted rs @ [bulk_lines rs] \<rparr>)"
    by (simp add: flush_bulk_def ESClient_bulk_http_error Let_def)
  have 9: "fst (process_hit L es a detectors fmap h rs) \<noteq> None \<longrightarrow>
        run_hits L es a detectors fmap (h # hs) rs = process_hit L es a detectors fmap h rs"
    by (cases "process_hit L es a detectors fmap h rs") auto
  from 1 2 ESClient_bulk_fails [of es actions st] ESClient_bulk_one_request [of es actions st]
    5 6 7 8 9
  show ?thesis by (intro conjI)
qed

theorem C7_bulk_errors_witness:
  "ESClient_bulk replay_store one_update ([], [Response 503 None])
     = (Inl (HTTPError 503), [BULK_HTTP_ERROR 503], ([], []))
   \<and> ESClient_bulk replay_store one_update
        ([], [Response 200 (Some \<lparr> data_errors = True,
                                      data_items = [item_ok, item_conflict, item_ok] \<rparr>)])
     = (Inr \<lparr> data_errors = True, data_items = [item_ok, item_conflict, item_ok] \<rparr>,
        [BULK_ITEM_ERRORS [item_conflict]], ([], []))
   \<and> bulk_printed \<lparr> data_errors = True,
                     data_items = [item_conflict, item_conflict, item_ok, item_conflict,
                                   item_conflict, item_conflict, item_conflict] \<rparr>
     = [BULK_ITEM_ERRORS [item_conflict, item_conflict, item_conflict, item_conflict,
                          item_conflict]]
   \<and> flush_bulk replay_store
        ((init_state ([], [Response 200 (Some \<lparr> data_errors = True,
                                      data_items = [item_ok, item_conflict, item_ok] \<rparr>)]))
           \<lparr> bulk_lines := one_update \<rparr>)
     = (None,
        (init_state ([], [])) \<lparr> stderr := [BULK_ITEM_ERRORS [item_conflict]],
                                posted := [one_update] \<rparr>)"
proof -
  have e: "item_has_error item_conflict" "\<not> item_has_error item_ok"
    by (simp_all add: item_has_error_def item_conflict_def item_ok_def u_def)
  have ne: "one_update \<noteq> []"
    by (simp add: one_update_def)
  let ?data = "\<lparr> data_errors = True, data_items = [item_ok, item_conflict, item_ok] \<rparr>"
  have p: "bulk_printed ?data = [BULK_ITEM_ERRORS [item_conflict]]"
    by (simp add: bulk_printed_def e)
  have 1: "ESClient_bulk replay_store one_update ([], [Response 503 None])
     = (Inl (HTTPError 503), [BULK_HTTP_ERROR 503], ([], []))"
    using C7_bulk_errors [of replay_store "([], [Response 503 None])" one_update 503 None
        "([], [])"]
    by (simp add: replay_store_def)
  have 2: "ESClient_bulk replay_store one_update ([], [Response 200 (Some ?data)])
     = (Inr ?data, [BULK_ITEM_ERRORS [item_conflict]], ([], []))"
    using C7_bulk_errors [of replay_store "([], [Response 200 (Some ?data)])" one_update 200
        "Some ?data" "([], [])" ?data]
    by (simp add: replay_store_def p)
  have 3: "bulk_printed \<lparr> data_errors = True,
                     data_items = [item_conflict, item_conflict, item_ok, item_conflict,
                                   item_conflict, item_conflict, item_conflict] \<rparr>
     = [BULK_ITEM_ERRORS [item_conflict, item_conflict, item_conflict, item_conflict,
                          item_conflict]]"
    by (simp add: bulk_printed_def e)
  have 4: "flush_bulk replay_store
        ((init_state ([], [Response 200 (Some ?data)])) \<lparr> bulk_lines := one_update \<rparr>)
     = (None,
        (init_state ([], [])) \<lparr> stderr := [BULK_ITEM_ERRORS [item_conflict]],
                                posted := [one_update] \<rparr>)"
    using C7_bulk_errors [of replay_store _ _ 200 "Some ?data" "([], [])" ?data
        "(init_state ([], [Response 200 (Some ?data)])) \<lparr> bulk_lines := one_update \<rparr>"]
    by (simp add: replay_store_def p ne init_state_def)
  from 1 2 3 4 show ?thesis by (intro conjI)
qed

text \<open>
  A response with status 300 is not a 2xx response, yet the submission returns its payload
  and raises nothing.
\<close>

theorem C7_redirect_counterexample:
  "ESClient_bulk replay_store one_update
     ([], [Response 300 (Some \<lparr> data_errors = False, data_items = [] \<rparr>)])
   = (Inr \<lparr> data_errors = False, data_items = [] \<rparr>, [], ([], []))"
  by (simp add: ESClient_bulk_def replay_store_def bulk_read_def)

section \<open>Loading detectors\<close>









section \<open>Pagination\<close>

lemma scroll_loop_stop:
  assumes "\<not> goes_on p"
  shows "scroll_loop es scroll (data_hits p) (data_scroll_id p) out st = Some ((out, None), st)"
  using assms
  by (subst scroll_loop.simps) (auto simp: goes_on_def split: option.splits)

lemma scroll_loop_step:
  assumes "goes_on p" and "data_scroll_id p = Some tok"
  shows "scroll_loop es scroll (data_hits p) (data_scroll_id p) out st =
     (case post_search es st (ContinueScroll scroll tok) of
        (r, st1) \<Rightarrow>
          (case read_page r of
             Inl e \<Rightarrow> Some ((out, Some e), st1)
           | Inr data \<Rightarrow>
               scroll_loop es scroll (data_hits data) (data_scroll_id data)
                 (out @ data_hits data) st1))"
  using assms
  by (subst scroll_loop.simps) (auto simp: goes_on_def split: option.splits)

lemma scroll_loop_pages:
  assumes "goes_on p" and "data_scroll_id p = Some tok"
    and "pages_served es scroll st (ContinueScroll scroll tok) ps e st1"
  shows "scroll_loop es scroll (data_hits p) (data_scroll_id p) out st
     = Some ((out @ concat (map data_hits ps), e), st1)"
  using assms
proof (induction ps arbitrary: p tok out st)
  case Nil
  obtain r s where post: "post_search es st (ContinueScroll scroll tok) = (r, s)"
    by (cases "post_search es st (ContinueScroll scroll tok)")
  with Nil.prems(3) obtain err where "e = Some err" "read_page r = Inl err" "st1 = s"
    by (auto split: option.splits)
  then show ?case
    by (simp add: scroll_loop_step [OF Nil.prems(1,2)] post)
next
  case (Cons q qs)
  obtain r s where post: "post_search es st (ContinueScroll scroll tok) = (r, s)"
    by (cases "post_search es st (ContinueScroll scroll tok)")
  with Cons.prems(3) have q: "read_page r = Inr q" by simp
  have unfold: "scroll_loop es scroll (data_hits p) (data_scroll_id p) out st
      = scroll_loop es scroll (data_hits q) (data_scroll_id q) (out @ data_hits q) s"
    by (simp add: scroll_loop_step [OF Cons.prems(1,2)] post q)
  show ?case
  proof (cases "goes_on q")
    case True
    with Cons.prems(3) post obtain tok1 where tok1: "data_scroll_id q = Some tok1"
        and rest: "pages_served es scroll s (ContinueScroll scroll tok1) qs e st1"
      by (auto split: option.splits)
    from Cons.IH [OF True tok1 rest] show ?thesis
      by (simp add: unfold)
  next
    case False
    with Cons.prems(3) post have "qs = []" "e = None" "st1 = s" by simp_all
    with False show ?thesis
      by (simp add: unfold scroll_loop_stop)
  qed
qed

text \<open>
  C6. Whenever the store answers the requests of the pagination with pages of which each but
  the last has a non-empty batch and a cursor token, and the last has an empty batch or no
  token (or the store then answers with an error), the pagination returns: it has yielded
  every hit of every page, in order, and it has sent no request after the last page. After
  a batch it goes on only when that response had a non-empty batch and a token: an empty
  batch ends it whatever the token, and so does a missing or empty token.
\<close>

theorem C6_pagination:
  "(pages_served es scroll st (InitialSearch idx scroll (query @ [(u ''size'', PInt page_size)]))
      pages e st1 \<longrightarrow>
      search_scroll es idx query page_size scroll st
        = Some ((concat (map data_hits pages), e), st1))
   \<and> scroll_loop es scroll [] sid out st = Some ((out, None), st)
   \<and> scroll_loop es scroll hs None out st = Some ((out, None), st)
   \<and> scroll_loop es scroll hs (Some []) out st = Some ((out, None), st)
   \<and> (\<not> goes_on p \<longrightarrow>
        scroll_loop es scroll (data_hits p) (data_scroll_id p) out st = Some ((out, None), st))"
proof -
  have main: "search_scroll es idx query page_size scroll st
        = Some ((concat (map data_hits pages), e), st1)"
    if served: "pages_served es scroll st
      (InitialSearch idx scroll (query @ [(u ''size'', PInt page_size)])) pages e st1"
  proof (cases pages)
    case Nil
    with served show ?thesis
      by (simp add: search_scroll_def split: prod.splits option.splits)
  next
    case (Cons p ps)
    obtain r s where post: "post_search es st
        (InitialSearch idx scroll (query @ [(u ''size'', PInt page_size)])) = (r, s)"
      by (cases "post_search es st
        (InitialSearch idx scroll (query @ [(u ''size'', PInt page_size)]))")
    with served Cons have p: "read_page r = Inr p" by simp
    have start: "search_scroll es idx query page_size scroll st
        = scroll_loop es scroll (data_hits p) (data_scroll_id p) (data_hits p) s"
      by (simp add: search_scroll_def post p)
    show ?thesis
    proof (cases "goes_on p")
      case True
      with served Cons post obtain tok where tok: "data_scroll_id p = Some tok"
          and rest: "pages_served es scroll s (ContinueScroll scroll tok) ps e st1"
        by (auto split: option.splits)
      from scroll_loop_pages [OF True tok rest] show ?thesis
        by (simp add: start Cons)
    next
      case False
      with served Cons post have "ps = []" "e = None" "st1 = s" by simp_all
      with False show ?thesis
        by (simp add: start Cons scroll_loop_stop)
    qed
  qed
  have a: "scroll_loop es scroll [] sid out st = Some ((out, None), st)"
    by (subst scroll_loop.simps) (simp split: option.splits)
  have b: "scroll_loop es scroll hs None out st = Some ((out, None), st)"
    by (subst scroll_loop.simps) simp
  have c: "scroll_loop es scroll hs (Some []) out st = Some ((out, None), st)"
    by (subst scroll_loop.simps) simp
  from main a b c scroll_loop_stop [of p es scroll out st] show ?thesis
    by (intro conjI impI)
qed

theorem C6_pagination_witness:
  "pages_served replay_store (u ''2m'')
      ([Response 200 (Some page_one), Response 200 (Some page_empty), Response 200 (Some page_one)],
       [])
      (InitialSearch (u ''docs'') (u ''2m'') ([] @ [(u ''size'', PInt 500)]))
      [page_one, page_empty] None ([Response 200 (Some page_one)], [])
   \<and> search_scroll replay_store (u ''docs'') [] 500 (u ''2m'')
        ([Response 200 (Some page_one), Response 200 (Some page_empty),
          Response 200 (Some page_one)], [])
       = Some (([hit_a, hit_b], None), ([Response 200 (Some page_one)], []))
   \<and> search_scroll replay_store (u ''docs'') [] 500 (u ''2m'')
        ([Response 200 (Some page_one), Response 502 None], [])
       = Some (([hit_a, hit_b], Some (HTTPError 502)), ([], []))
   \<and> search_scroll replay_store (u ''docs'') [] 500 (u ''2m'')
        ([Response 200 (Some page_one), Response 200 (Some page_last)], [])
       = Some (([hit_a, hit_b, hit_anonymous], None), ([], []))"
proof -
  have g: "goes_on page_one" "\<not> goes_on page_empty" "\<not> goes_on page_last"
    by (simp_all add: goes_on_def page_one_def page_empty_def page_last_def u_def)
  have tok: "data_scroll_id page_one = Some (u ''c1'')" "data_hits page_one = [hit_a, hit_b]"
      "data_hits page_empty = []" "data_hits page_last = [hit_anonymous]"
    by (simp_all add: page_one_def page_empty_def page_last_def)
  have rp: "read_page (Response 200 (Some p)) = Inr p" "read_page (Response 502 None) = Inl (HTTPError 502)"
    for p
    by (simp_all add: read_page_def raise_for_status_def)
  have 1: "pages_served replay_store (u ''2m'')
      ([Response 200 (Some page_one), Response 200 (Some page_empty), Response 200 (Some page_one)],
       [])
      (InitialSearch (u ''docs'') (u ''2m'') ([] @ [(u ''size'', PInt 500)]))
      [page_one, page_empty] None ([Response 200 (Some page_one)], [])"
    by (simp add: replay_store_def rp g tok)
  have 2: "pages_served replay_store (u ''2m'')
      ([Response 200 (Some page_one), Response 502 None], [])
      (InitialSearch (u ''docs'') (u ''2m'') ([] @ [(u ''size'', PInt 500)]))
      [page_one] (Some (HTTPError 502)) ([], [])"
    by (simp add: replay_store_def rp g tok)
  have 3: "pages_served replay_store (u ''2m'')
      ([Response 200 (Some page_one), Response 200 (Some page_last)], [])
      (InitialSearch (u ''docs'') (u ''2m'') ([] @ [(u ''size'', PInt 500)]))
      [page_one, page_last] None ([], [])"
    by (simp add: replay_store_def rp g tok)
  from 1 2 C6_pagination [THEN conjunct1, THEN mp, OF 1] C6_pagination [THEN conjunct1, THEN mp, OF 2]
    C6_pagination [THEN conjunct1, THEN mp, OF 3]
  show ?thesis
    by (simp add: tok)
qed

end
